theory Spec2Isabelle
  imports Complex_Main "HOL-Library.AList"
begin

section \<open>Conventions of the embedding\<close>

text \<open>
  The committee forecaster is written in Python.  Its \<open>float\<close> values are modelled by
  the real numbers (rounding is not modelled), its \<open>str\<close> values by \<open>string\<close>
  restricted to ASCII, its exceptions by the left summand of a sum type.  The remote
  text-completion call \<open>LLMAgent._call_llm\<close> and the digest \<open>hashlib.md5\<close> are
  collaborators outside the repository and are taken as parameters.
\<close>

datatype error = ValueError | IndexError | TypeError | RuntimeError

subsection \<open>Character classes of the regular expressions\<close>

definition is_digit :: "char \<Rightarrow> bool" where
  \<comment> \<open>\<open>\d\<close> on ASCII text\<close>
  "is_digit c = (c \<in> set ''0123456789'')"

definition is_space :: "char \<Rightarrow> bool" where
  \<comment> \<open>\<open>\s\<close> on ASCII text: space, \<open>\t \n \v \f \r\<close> and the separators 0x1C to 0x1F\<close>
  "is_space c = (let n = (of_char c :: nat)
                 in c = CHR '' '' \<or> (9 \<le> n \<and> n \<le> 13) \<or> (28 \<le> n \<and> n \<le> 31))"

definition is_numchar :: "char \<Rightarrow> bool" where
  \<comment> \<open>the class \<open>[\d.]\<close>\<close>
  "is_numchar c = (is_digit c \<or> c = CHR ''.'')"

definition lower_char :: "char \<Rightarrow> char" where
  \<comment> \<open>ASCII case folding, for \<open>re.IGNORECASE\<close>\<close>
  "lower_char c = (let n = (of_char c :: nat)
                   in if 65 \<le> n \<and> n \<le> 90 then char_of (n + 32) else c)"

fun strip_prefix_ci :: "string \<Rightarrow> string \<Rightarrow> string option" where
  \<comment> \<open>a literal matched at the start of the text, ignoring case; returns the rest\<close>
  "strip_prefix_ci [] s = Some s"
| "strip_prefix_ci (k # ks) [] = None"
| "strip_prefix_ci (k # ks) (c # cs) =
     (if lower_char k = lower_char c then strip_prefix_ci ks cs else None)"

fun re_search :: "(string \<Rightarrow> 'a option) \<Rightarrow> string \<Rightarrow> 'a option" where
  \<comment> \<open>\<open>re.search\<close>: the match at the leftmost position where the pattern matches\<close>
  "re_search pat [] = pat []"
| "re_search pat (c # cs) =
     (case pat (c # cs) of Some g \<Rightarrow> Some g | None \<Rightarrow> re_search pat cs)"

definition match_number :: "string \<Rightarrow> (string \<times> string) option" where
  \<comment> \<open>the group \<open>(\d+(?:\.\d+)?)\<close> at the start of the text: the captured text and the rest\<close>
  "match_number s =
     (let ip = takeWhile is_digit s; r = dropWhile is_digit s
      in if ip = [] then None
         else (case r of
                 c # fs \<Rightarrow>
                   if c = CHR ''.'' \<and> takeWhile is_digit fs \<noteq> []
                   then Some (ip @ c # takeWhile is_digit fs, dropWhile is_digit fs)
                   else Some (ip, r)
               | [] \<Rightarrow> Some (ip, r)))"

definition label_at :: "string \<Rightarrow> string \<Rightarrow> string option" where
  \<comment> \<open>\<open>LABEL\s*([\d.]+)\<close> at the start of the text, ignoring case: group 1\<close>
  "label_at label s =
     (case strip_prefix_ci label s of
        None \<Rightarrow> None
      | Some r \<Rightarrow>
          (let g = takeWhile is_numchar (dropWhile is_space r)
           in if g = [] then None else Some g))"

definition percent_at :: "string \<Rightarrow> string option" where
  \<comment> \<open>\<open>(\d+(?:\.\d+)?)\s*%\<close> at the start of the text: group 1\<close>
  "percent_at s =
     (case match_number s of
        None \<Rightarrow> None
      | Some (g, r) \<Rightarrow>
          (case dropWhile is_space r of
             c # _ \<Rightarrow> if c = CHR ''%'' then Some g else None
           | [] \<Rightarrow> None))"

definition ratio_at :: "string \<Rightarrow> (string \<times> string) option" where
  \<comment> \<open>\<open>(\d+(?:\.\d+)?)\s*(?:in|out of)\s*(\d+)\<close> at the start of the text, ignoring
      case: groups 1 and 2\<close>
  "ratio_at s =
     (case match_number s of
        None \<Rightarrow> None
      | Some (g, r) \<Rightarrow>
          (let r1 = dropWhile is_space r;
               r2 = (case strip_prefix_ci ''in'' r1 of
                       Some r' \<Rightarrow> Some r'
                     | None \<Rightarrow> strip_prefix_ci ''out of'' r1)
           in case r2 of
                None \<Rightarrow> None
              | Some r' \<Rightarrow>
                  (let d = takeWhile is_digit (dropWhile is_space r')
                   in if d = [] then None else Some (g, d))))"

definition chance_keyword :: "string \<Rightarrow> string option" where
  \<comment> \<open>the alternation \<open>(?:odds|chance|likelihood)\<close>, ignoring case\<close>
  "chance_keyword s =
     (case strip_prefix_ci ''odds'' s of
        Some r \<Rightarrow> Some r
      | None \<Rightarrow>
          (case strip_prefix_ci ''chance'' s of
             Some r \<Rightarrow> Some r
           | None \<Rightarrow> strip_prefix_ci ''likelihood'' s))"

definition chance_at :: "string \<Rightarrow> string option" where
  \<comment> \<open>\<open>(?:odds|chance|likelihood).*?(\d+(?:\.\d+)?)\<close> at the start of the text: the lazy
      \<open>.*?\<close> stops at the first digit and cannot cross a newline\<close>
  "chance_at s =
     (case chance_keyword s of
        None \<Rightarrow> None
      | Some r \<Rightarrow>
          (case match_number (dropWhile (\<lambda>c. \<not> is_digit c \<and> c \<noteq> CHR 0x0A) r) of
             None \<Rightarrow> None
           | Some (g, _) \<Rightarrow> Some g))"

subsection \<open>Python's \<open>float\<close> on the captured groups\<close>

fun digit_val :: "char \<Rightarrow> nat" where
  "digit_val c = (of_char c :: nat) - 48"

definition dec :: "string \<Rightarrow> nat" where
  \<comment> \<open>the value of a string of decimal digits, 0 for the empty string\<close>
  "dec ds = foldl (\<lambda>acc c. 10 * acc + digit_val c) 0 ds"

definition py_float :: "string \<Rightarrow> error + real" where
  \<comment> \<open>\<open>float(g)\<close> for a group made of digits and dots: digits with at most one dot and
      at least one digit, otherwise \<open>ValueError\<close>\<close>
  "py_float g =
     (let ip = takeWhile is_digit g; r = dropWhile is_digit g
      in case r of
           [] \<Rightarrow> if ip = [] then Inl ValueError else Inr (real (dec ip))
         | c # fs \<Rightarrow>
             if c = CHR ''.'' \<and> list_all is_digit fs \<and> ip @ fs \<noteq> []
             then Inr (real (dec ip) + real (dec fs) / 10 ^ length fs)
             else Inl ValueError)"

section \<open>\<open>bot/utils.py\<close>\<close>

definition normalize_probability :: "real \<Rightarrow> real" where
  "normalize_probability prob = max 0.01 (min 0.99 prob)"

definition parse_probability :: "string \<Rightarrow> error + real option" where
  "parse_probability text =
     (case re_search (label_at ''PROBABILITY:'') text of
        Some g \<Rightarrow>
          (case py_float g of
             Inl e \<Rightarrow> Inl e
           | Inr prob \<Rightarrow> Inr (Some (normalize_probability prob)))
      | None \<Rightarrow>
     (case re_search percent_at text of
        Some g \<Rightarrow>
          (case py_float g of
             Inl e \<Rightarrow> Inl e
           | Inr v \<Rightarrow> Inr (Some (normalize_probability (v / 100))))
      | None \<Rightarrow>
     (case (case re_search ratio_at text of
              Some (g1, g2) \<Rightarrow>
                (case py_float g1 of
                   Inl e \<Rightarrow> Inl e
                 | Inr num \<Rightarrow>
                     (case py_float g2 of
                        Inl e \<Rightarrow> Inl e
                      | Inr denom \<Rightarrow>
                          if denom > 0 then Inr (Some (normalize_probability (num / denom)))
                          else Inr None))
            | None \<Rightarrow> Inr None) of
        Inl e \<Rightarrow> Inl e
      | Inr (Some r) \<Rightarrow> Inr (Some r)
      | Inr None \<Rightarrow>
     (case re_search chance_at text of
        Some g \<Rightarrow>
          (case py_float g of
             Inl e \<Rightarrow> Inl e
           | Inr prob \<Rightarrow>
               Inr (Some (normalize_probability (if prob > 1 then prob / 100 else prob))))
      | None \<Rightarrow> Inr None))))"

definition weighted_average :: "real list \<Rightarrow> real list \<Rightarrow> error + real" where
  "weighted_average probabilities weights =
     (if probabilities = [] \<or> weights = [] then Inr 0.5
      else if length probabilities \<noteq> length weights then Inl ValueError
      else (let total_weight = sum_list weights
            in if total_weight = 0 then Inr 0.5
               else Inr (sum_list (map (\<lambda>(p, w). p * w) (zip probabilities weights))
                         / total_weight)))"

fun parse_labelled :: "('k \<times> string) list \<Rightarrow> string \<Rightarrow> ('k \<times> real) list
                       \<Rightarrow> error + ('k \<times> real) list" where
  \<comment> \<open>the loop shared by \<open>parse_percentiles\<close> and \<open>parse_option_probabilities\<close>: for each
      key in turn, search \<open>LABEL\s*([\d.]+)\<close> and store \<open>float(group 1)\<close> under the key\<close>
  "parse_labelled [] text acc = Inr acc"
| "parse_labelled ((k, label) # rest) text acc =
     (case re_search (label_at label) text of
        None \<Rightarrow> parse_labelled rest text acc
      | Some g \<Rightarrow>
          (case py_float g of
             Inl e \<Rightarrow> Inl e
           | Inr v \<Rightarrow> parse_labelled rest text (AList.update k v acc)))"

definition parse_percentiles :: "string \<Rightarrow> error + (int \<times> real) list" where
  \<comment> \<open>the dictionary is an association list in insertion order\<close>
  "parse_percentiles text =
     parse_labelled
       [(10, ''p10:''), (20, ''p20:''), (30, ''p30:''), (40, ''p40:''), (50, ''p50:''),
        (60, ''p60:''), (70, ''p70:''), (80, ''p80:''), (90, ''p90:'')] text []"

definition parse_median :: "string \<Rightarrow> error + real option" where
  "parse_median text =
     (case re_search (label_at ''MEDIAN:'') text of
        Some g \<Rightarrow> (case py_float g of Inl e \<Rightarrow> Inl e | Inr v \<Rightarrow> Inr (Some v))
      | None \<Rightarrow> Inr None)"

definition parse_option_probabilities ::
    "string \<Rightarrow> string list \<Rightarrow> error + (string \<times> real) list" where
  \<comment> \<open>\<open>re.escape(option)\<close> makes the option a literal of the pattern\<close>
  "parse_option_probabilities text options =
     parse_labelled (map (\<lambda>option. (option, option @ '':'')) options) text []"

definition starts_with_ci :: "string \<Rightarrow> string \<Rightarrow> bool" where
  "starts_with_ci k s = (case strip_prefix_ci k s of Some _ \<Rightarrow> True | None \<Rightarrow> False)"

definition stop_here :: "string \<Rightarrow> bool" where
  \<comment> \<open>the lookahead \<open>(?=PROBABILITY:|MEDIAN:|PROBABILITIES:|$)\<close>; \<open>$\<close> also matches before
      a final newline\<close>
  "stop_here s =
     (starts_with_ci ''PROBABILITY:'' s \<or> starts_with_ci ''MEDIAN:'' s
      \<or> starts_with_ci ''PROBABILITIES:'' s \<or> s = [] \<or> s = [CHR 0x0A])"

fun lazy_until_stop :: "string \<Rightarrow> string" where
  \<comment> \<open>the lazy group \<open>(.*?)\<close> under \<open>re.DOTALL\<close> in front of the lookahead\<close>
  "lazy_until_stop [] = []"
| "lazy_until_stop (c # cs) = (if stop_here (c # cs) then [] else c # lazy_until_stop cs)"

definition reasoning_at :: "string \<Rightarrow> string option" where
  "reasoning_at s =
     (case strip_prefix_ci ''REASONING:'' s of
        None \<Rightarrow> None
      | Some r \<Rightarrow> Some (lazy_until_stop (dropWhile is_space r)))"

definition py_strip :: "string \<Rightarrow> string" where
  "py_strip s = rev (dropWhile is_space (rev (dropWhile is_space s)))"

definition extract_reasoning :: "string \<Rightarrow> string" where
  "extract_reasoning text =
     (case re_search reasoning_at text of
        Some g \<Rightarrow> py_strip g
      | None \<Rightarrow> py_strip text)"

fun interpolate :: "real \<Rightarrow> real \<Rightarrow> (int \<times> real) option \<Rightarrow> (int \<times> real) list \<Rightarrow> real" where
  \<comment> \<open>the inner \<open>for j, (p, val) in enumerate(sorted_p)\<close> of \<open>cdf_from_percentiles\<close>;
      the third argument is \<open>sorted_p[j - 1]\<close>, absent when \<open>j == 0\<close>; the empty list is
      the \<open>else\<close> branch of the loop\<close>
  "interpolate lower x prev [] = 1"
| "interpolate lower x prev ((p, val) # rest) =
     (if x < val then
        (case prev of
           None \<Rightarrow>
             (if val \<noteq> lower then real_of_int p / 100 * (x - lower) / (val - lower) else 0)
         | Some (prev_p, prev_val) \<Rightarrow>
             (let t = (if val \<noteq> prev_val then (x - prev_val) / (val - prev_val) else 0)
              in (real_of_int prev_p + t * real_of_int (p - prev_p)) / 100))
      else interpolate lower x (Some (p, val)) rest)"

fun max_scan :: "real \<Rightarrow> real list \<Rightarrow> real list" where
  \<comment> \<open>\<open>for i in range(1, 201): cdf[i] = max(cdf[i], cdf[i - 1])\<close>, the first argument
      being the already final \<open>cdf[i - 1]\<close>\<close>
  "max_scan prev [] = []"
| "max_scan prev (c # cs) = (let m = max c prev in m # max_scan m cs)"

definition cdf_from_percentiles :: "(int \<times> real) list \<Rightarrow> real \<Rightarrow> real \<Rightarrow> real list" where
  "cdf_from_percentiles percentiles lower upper =
     (let sorted_p = sort_key fst percentiles;
          cdf = map (\<lambda>i. interpolate lower (lower + (upper - lower) * real i / 200)
                            None sorted_p) [0..<201];
          cdf = cdf[0 := 0];
          cdf = cdf[length cdf - 1 := 1]
      in case cdf of
           [] \<Rightarrow> []
         | c # cs \<Rightarrow> c # max_scan c cs)"

definition pin_and_scan :: "real list \<Rightarrow> real list" where
  \<comment> \<open>the part of \<open>cdf_from_percentiles\<close> after the interpolation loop, as a function of
      the interpolated values: pin the endpoints, then scan\<close>
  "pin_and_scan raw =
     (let cdf = raw[0 := 0]; cdf = cdf[length cdf - 1 := 1]
      in case cdf of [] \<Rightarrow> [] | c # cs \<Rightarrow> c # max_scan c cs)"

definition logit :: "real \<Rightarrow> real" where
  "logit p = (let p = max 0.0001 (min 0.9999 p) in ln (p / (1 - p)))"

definition inv_logit :: "real \<Rightarrow> real" where
  "inv_logit x = 1 / (1 + exp (- x))"

definition aggregate_logit_space :: "real list \<Rightarrow> real list \<Rightarrow> error + real" where
  "aggregate_logit_space probabilities weights =
     (let logits = map logit probabilities
      in case weighted_average logits weights of
           Inl e \<Rightarrow> Inl e
         | Inr avg_logit \<Rightarrow> Inr (inv_logit avg_logit))"

section \<open>\<open>models/schemas.py\<close> and \<open>bot/agents.py\<close>\<close>

record LLMAgent =
  name :: string
  system_prompt :: string
  weight :: real

record AgentForecast =
  agent_name :: string
  weight :: real
  initial_reasoning :: string
  initial_probability :: "real option"
  peer_critique :: string
  final_probability :: real
  final_reasoning :: string

text \<open>
  A prompt is represented by the values the source interpolates into its template; the
  formatting of the message text is not modelled.
\<close>

datatype prompt =
    ForecastPrompt string string string
  | PeerReviewPrompt string string real string
  | RevisePrompt string real string string
  | NumericPrompt string string real real bool bool string
  | MultipleChoicePrompt string string "string list" string

type_synonym llm = "LLMAgent \<Rightarrow> prompt \<Rightarrow> error + string"

definition py_or :: "real option \<Rightarrow> real \<Rightarrow> real" where
  \<comment> \<open>Python's \<open>a or b\<close> for an optional float: \<open>None\<close> and \<open>0.0\<close> are falsy\<close>
  "py_or a b = (case a of None \<Rightarrow> b | Some v \<Rightarrow> if v = 0 then b else v)"

definition forecast :: "llm \<Rightarrow> LLMAgent \<Rightarrow> string \<Rightarrow> string \<Rightarrow> string \<Rightarrow> error + AgentForecast" where
  "forecast call_llm self question_text resolution_criteria research_section =
     (case call_llm self (ForecastPrompt question_text resolution_criteria research_section) of
        Inl e \<Rightarrow> Inl e
      | Inr response \<Rightarrow>
          (case parse_probability response of
             Inl e \<Rightarrow> Inl e
           | Inr parsed \<Rightarrow>
               (let probability = py_or parsed 0.5;
                    reasoning = extract_reasoning response
                in Inr \<lparr>agent_name = name self, weight = LLMAgent.weight self,
                         initial_reasoning = reasoning, initial_probability = Some probability,
                         peer_critique = [], final_probability = probability,
                         final_reasoning = reasoning\<rparr>)))"

definition peer_review :: "llm \<Rightarrow> LLMAgent \<Rightarrow> string \<Rightarrow> AgentForecast \<Rightarrow> error + string" where
  "peer_review call_llm self question_text other_agent =
     call_llm self (PeerReviewPrompt question_text (agent_name other_agent)
                      (final_probability other_agent) (final_reasoning other_agent))"

definition revise_forecast ::
    "llm \<Rightarrow> LLMAgent \<Rightarrow> string \<Rightarrow> AgentForecast \<Rightarrow> string \<Rightarrow> error + AgentForecast" where
  \<comment> \<open>formatting an absent \<open>initial_probability\<close> with \<open>:.2%\<close> raises \<open>TypeError\<close>\<close>
  "revise_forecast call_llm self question_text initial_forecast critique =
     (case initial_probability initial_forecast of
        None \<Rightarrow> Inl TypeError
      | Some initial \<Rightarrow>
     (case call_llm self (RevisePrompt question_text initial
                            (initial_reasoning initial_forecast) critique) of
        Inl e \<Rightarrow> Inl e
      | Inr response \<Rightarrow>
          (case parse_probability response of
             Inl e \<Rightarrow> Inl e
           | Inr parsed \<Rightarrow>
               (let probability = py_or parsed initial;
                    reasoning = extract_reasoning response
                in Inr \<lparr>agent_name = name self, weight = LLMAgent.weight self,
                         initial_reasoning = initial_reasoning initial_forecast,
                         initial_probability = initial_probability initial_forecast,
                         peer_critique = critique, final_probability = probability,
                         final_reasoning = reasoning\<rparr>))))"

fun gather :: "(error + 'a) list \<Rightarrow> error + 'a list" where
  \<comment> \<open>\<open>asyncio.gather\<close>: the results in the order of the tasks, or an exception of a task\<close>
  "gather [] = Inr []"
| "gather (t # ts) =
     (case t of
        Inl e \<Rightarrow> Inl e
      | Inr v \<Rightarrow> (case gather ts of Inl e \<Rightarrow> Inl e | Inr vs \<Rightarrow> Inr (v # vs)))"

definition run_initial_forecasts ::
    "llm \<Rightarrow> LLMAgent list \<Rightarrow> string \<Rightarrow> string \<Rightarrow> string \<Rightarrow> error + AgentForecast list" where
  "run_initial_forecasts call_llm agents question_text resolution_criteria research_section =
     gather (map (\<lambda>agent. forecast call_llm agent question_text resolution_criteria
                             research_section) agents)"

definition reviewed_idx :: "nat \<Rightarrow> nat \<Rightarrow> nat" where
  \<comment> \<open>\<open>reviewed_idx = (i + 1) % n\<close>\<close>
  "reviewed_idx i n = (i + 1) mod n"

fun peer_review_loop ::
    "llm \<Rightarrow> AgentForecast list \<Rightarrow> string \<Rightarrow> nat \<Rightarrow> nat \<Rightarrow> LLMAgent list \<Rightarrow> string list
     \<Rightarrow> error + string list" where
  \<comment> \<open>\<open>for i, agent in enumerate(agents)\<close>, from index \<open>i\<close> on, with the critiques
      appended so far\<close>
  "peer_review_loop call_llm forecasts question_text n i [] critiques = Inr critiques"
| "peer_review_loop call_llm forecasts question_text n i (agent # rest) critiques =
     (if reviewed_idx i n < length forecasts then
        (case peer_review call_llm agent question_text (forecasts ! reviewed_idx i n) of
           Inl e \<Rightarrow> Inl e
         | Inr critique \<Rightarrow>
             peer_review_loop call_llm forecasts question_text n (i + 1) rest
               (critiques @ [critique]))
      else Inl IndexError)"

definition run_peer_reviews ::
    "llm \<Rightarrow> LLMAgent list \<Rightarrow> AgentForecast list \<Rightarrow> string \<Rightarrow> error + string list" where
  "run_peer_reviews call_llm agents forecasts question_text =
     peer_review_loop call_llm forecasts question_text (length agents) 0 agents []"

definition run_revisions ::
    "llm \<Rightarrow> LLMAgent list \<Rightarrow> AgentForecast list \<Rightarrow> string list \<Rightarrow> string
     \<Rightarrow> error + AgentForecast list" where
  "run_revisions call_llm agents forecasts critiques question_text =
     gather (map (\<lambda>(agent, forecast, critique).
                     revise_forecast call_llm agent question_text forecast critique)
                 (zip agents (zip forecasts critiques)))"

section \<open>\<open>bot/forecaster.py\<close>\<close>

record CommitteeResult =
  question_id :: int
  question_type :: string
  agent_forecasts :: "AgentForecast list"
  final_probability :: real
  final_cdf :: "real list option"
  final_option_probs :: "(string \<times> real) list option"
  reasoning_summary :: string

definition to_prompt_section :: "string \<Rightarrow> string" where
  \<comment> \<open>\<open>ResearchContext.to_prompt_section\<close> for a context built with only
      \<open>adj_prior_section\<close>, the compiled research text\<close>
  "to_prompt_section research_str =
     (if research_str \<noteq> [] then ''### Prediction Market Data'' @ [CHR 0x0A] @ research_str
      else [])"

definition aggregate_forecasts :: "AgentForecast list \<Rightarrow> error + real" where
  \<comment> \<open>\<open>Forecaster._aggregate_forecasts\<close>\<close>
  "aggregate_forecasts forecasts =
     (let probabilities = map AgentForecast.final_probability forecasts;
          weights = map AgentForecast.weight forecasts
      in aggregate_logit_space probabilities weights)"

definition aggregate_cdfs :: "AgentForecast list \<Rightarrow> real \<Rightarrow> real \<Rightarrow> real list" where
  \<comment> \<open>\<open>Forecaster._aggregate_cdfs\<close>: the body of the loop over the forecasts is \<open>pass\<close>\<close>
  "aggregate_cdfs forecasts lower upper =
     (let weights = map AgentForecast.weight forecasts;
          total_weight = sum_list weights;
          aggregated = replicate 201 (0::real);
          aggregated = fold (\<lambda>forecast acc. acc) forecasts aggregated
      in aggregated)"

definition aggregate_multiple_choice ::
    "AgentForecast list \<Rightarrow> string list \<Rightarrow> (string \<times> real) list" where
  \<comment> \<open>\<open>Forecaster._aggregate_multiple_choice\<close>: the dictionary
      \<open>{opt: 1.0 / len(options) for opt in options}\<close>\<close>
  "aggregate_multiple_choice forecasts options =
     fold (\<lambda>opt d. AList.update opt (1 / real (length options)) d) options []"

definition summarize_reasoning :: "AgentForecast list \<Rightarrow> string" where
  \<comment> \<open>\<open>Forecaster._summarize_reasoning\<close>\<close>
  "summarize_reasoning forecasts =
     (let sections = map (\<lambda>f. ''**'' @ agent_name f @ ''**: '' @ take 200 (final_reasoning f)
                                 @ ''...'') forecasts
      in case sections of
           [] \<Rightarrow> []
         | s # ss \<Rightarrow> s @ concat (map (\<lambda>t. [CHR 0x0A, CHR 0x0A] @ t) ss))"

definition forecast_binary ::
    "llm \<Rightarrow> LLMAgent list \<Rightarrow> bool \<Rightarrow> int \<Rightarrow> string \<Rightarrow> string \<Rightarrow> string
     \<Rightarrow> error + CommitteeResult" where
  \<comment> \<open>\<open>Forecaster.forecast_binary\<close>; the last argument is the text returned by the
      research provider\<close>
  "forecast_binary call_llm agents use_peer_review qid question_text resolution_criteria
       research_str =
     (case run_initial_forecasts call_llm agents question_text resolution_criteria
             (to_prompt_section research_str) of
        Inl e \<Rightarrow> Inl e
      | Inr forecasts \<Rightarrow>
     (case (if use_peer_review then
              (case run_peer_reviews call_llm agents forecasts question_text of
                 Inl e \<Rightarrow> Inl e
               | Inr critiques \<Rightarrow>
                   run_revisions call_llm agents forecasts critiques question_text)
            else Inr forecasts) of
        Inl e \<Rightarrow> Inl e
      | Inr forecasts \<Rightarrow>
     (case aggregate_forecasts forecasts of
        Inl e \<Rightarrow> Inl e
      | Inr final_prob \<Rightarrow>
          Inr \<lparr>question_id = qid, question_type = ''binary'', agent_forecasts = forecasts,
                final_probability = final_prob, final_cdf = None, final_option_probs = None,
                reasoning_summary = summarize_reasoning forecasts\<rparr>)))"

definition forecast_numeric_agent ::
    "llm \<Rightarrow> LLMAgent \<Rightarrow> string \<Rightarrow> string \<Rightarrow> string \<Rightarrow> real \<Rightarrow> real \<Rightarrow> bool \<Rightarrow> bool
     \<Rightarrow> error + AgentForecast" where
  \<comment> \<open>\<open>Forecaster._forecast_numeric_agent\<close>\<close>
  "forecast_numeric_agent call_llm agent question_text resolution_criteria research_section
       lower_bound upper_bound open_lower open_upper =
     (case call_llm agent (NumericPrompt question_text resolution_criteria lower_bound
                             upper_bound open_lower open_upper research_section) of
        Inl e \<Rightarrow> Inl e
      | Inr response \<Rightarrow>
     (case parse_percentiles response of
        Inl e \<Rightarrow> Inl e
      | Inr percentiles \<Rightarrow>
     (case parse_median response of
        Inl e \<Rightarrow> Inl e
      | Inr median \<Rightarrow>
          Inr \<lparr>agent_name = name agent, weight = LLMAgent.weight agent,
                initial_reasoning = [], initial_probability = None, peer_critique = [],
                final_probability = py_or median ((lower_bound + upper_bound) / 2),
                final_reasoning = extract_reasoning response\<rparr>)))"

fun numeric_agents_loop ::
    "llm \<Rightarrow> string \<Rightarrow> string \<Rightarrow> string \<Rightarrow> real \<Rightarrow> real \<Rightarrow> bool \<Rightarrow> bool \<Rightarrow> LLMAgent list
     \<Rightarrow> error + AgentForecast list" where
  \<comment> \<open>\<open>for agent in self.agents\<close> of \<open>forecast_numeric\<close>\<close>
  "numeric_agents_loop call_llm q rc rs lo hi ol ou [] = Inr []"
| "numeric_agents_loop call_llm q rc rs lo hi ol ou (agent # rest) =
     (case forecast_numeric_agent call_llm agent q rc rs lo hi ol ou of
        Inl e \<Rightarrow> Inl e
      | Inr f \<Rightarrow>
          (case numeric_agents_loop call_llm q rc rs lo hi ol ou rest of
             Inl e \<Rightarrow> Inl e
           | Inr fs \<Rightarrow> Inr (f # fs)))"

definition forecast_numeric ::
    "llm \<Rightarrow> LLMAgent list \<Rightarrow> int \<Rightarrow> string \<Rightarrow> string \<Rightarrow> real \<Rightarrow> real \<Rightarrow> bool \<Rightarrow> bool
     \<Rightarrow> string \<Rightarrow> error + CommitteeResult" where
  "forecast_numeric call_llm agents qid question_text resolution_criteria lower_bound
       upper_bound open_lower open_upper research_str =
     (case numeric_agents_loop call_llm question_text resolution_criteria
             (to_prompt_section research_str) lower_bound upper_bound open_lower open_upper
             agents of
        Inl e \<Rightarrow> Inl e
      | Inr forecasts \<Rightarrow>
          Inr \<lparr>question_id = qid, question_type = ''numeric'', agent_forecasts = forecasts,
                final_probability = 0.5,
                final_cdf = Some (aggregate_cdfs forecasts lower_bound upper_bound),
                final_option_probs = None,
                reasoning_summary = summarize_reasoning forecasts\<rparr>)"

fun multiple_choice_agents_loop ::
    "llm \<Rightarrow> string \<Rightarrow> string \<Rightarrow> string list \<Rightarrow> string \<Rightarrow> LLMAgent list
     \<Rightarrow> error + AgentForecast list" where
  \<comment> \<open>\<open>for agent in self.agents\<close> of \<open>forecast_multiple_choice\<close>: the parsed and
      renormalised \<open>option_probs\<close> are bound to a local name and not stored\<close>
  "multiple_choice_agents_loop call_llm q rc options rs [] = Inr []"
| "multiple_choice_agents_loop call_llm q rc options rs (agent # rest) =
     (case call_llm agent (MultipleChoicePrompt q rc options rs) of
        Inl e \<Rightarrow> Inl e
      | Inr response \<Rightarrow>
     (case parse_option_probabilities response options of
        Inl e \<Rightarrow> Inl e
      | Inr option_probs \<Rightarrow>
          (let total = sum_list (map snd option_probs);
               option_probs = (if total > 0 then map (\<lambda>(k, v). (k, v / total)) option_probs
                               else option_probs);
               f = \<lparr>agent_name = name agent, weight = LLMAgent.weight agent,
                    initial_reasoning = [], initial_probability = None, peer_critique = [],
                    final_probability = 0.5, final_reasoning = response\<rparr>
           in case multiple_choice_agents_loop call_llm q rc options rs rest of
                Inl e \<Rightarrow> Inl e
              | Inr fs \<Rightarrow> Inr (f # fs))))"

definition forecast_multiple_choice ::
    "llm \<Rightarrow> LLMAgent list \<Rightarrow> int \<Rightarrow> string \<Rightarrow> string \<Rightarrow> string list \<Rightarrow> string
     \<Rightarrow> error + CommitteeResult" where
  "forecast_multiple_choice call_llm agents qid question_text resolution_criteria options
       research_str =
     (case multiple_choice_agents_loop call_llm question_text resolution_criteria options
             (to_prompt_section research_str) agents of
        Inl e \<Rightarrow> Inl e
      | Inr forecasts \<Rightarrow>
          Inr \<lparr>question_id = qid, question_type = ''multiple_choice'',
                agent_forecasts = forecasts, final_probability = 0.5, final_cdf = None,
                final_option_probs = Some (aggregate_multiple_choice forecasts options),
                reasoning_summary = summarize_reasoning forecasts\<rparr>)"

section \<open>\<open>research/adj_client.py\<close>: the response cache\<close>

record 'v CacheEntry =
  data :: 'v
  timestamp :: real

record 'v ResponseCache =
  cache :: "(string \<times> 'v CacheEntry) list"
  ttl :: int
  max_size :: int

text \<open>
  The dictionary \<open>self.cache\<close> is an association list in insertion order, as a Python
  dictionary iterates.  The lock makes each operation atomic, so an operation is a function
  from the state before to the state after.  The clock reading \<open>time.time()\<close> and the
  digest are arguments.
\<close>

definition ResponseCache_init :: "int \<Rightarrow> int \<Rightarrow> 'v ResponseCache" where
  "ResponseCache_init ttl_seconds max_sz = \<lparr>cache = [], ttl = ttl_seconds, max_size = max_sz\<rparr>"

definition cache_set ::
    "(string \<Rightarrow> string) \<Rightarrow> 'v ResponseCache \<Rightarrow> string \<Rightarrow> 'v \<Rightarrow> real \<Rightarrow> 'v ResponseCache" where
  \<comment> \<open>\<open>ResponseCache.set\<close>\<close>
  "cache_set hash self key dat now =
     (let store = cache self;
          store =
            (if int (length store) \<ge> max_size self then
               (let sorted_keys = map fst (sort_key (\<lambda>(k, e). timestamp e) store)
                in fold AList.delete (take (length store div 4) sorted_keys) store)
             else store);
          hashed = hash key
      in self\<lparr>cache := AList.update hashed \<lparr>data = dat, timestamp = now\<rparr> store\<rparr>)"

fun cache_sets ::
    "(string \<Rightarrow> string) \<Rightarrow> 'v ResponseCache \<Rightarrow> (string \<times> 'v \<times> real) list \<Rightarrow> 'v ResponseCache" where
  \<comment> \<open>a sequence of \<open>set\<close> operations, each with its key, its data and its clock reading\<close>
  "cache_sets hash self [] = self"
| "cache_sets hash self ((key, dat, now) # ops) =
     cache_sets hash (cache_set hash self key dat now) ops"

definition cache_inv :: "'v ResponseCache \<Rightarrow> bool" where
  \<comment> \<open>the keys of the store are distinct, as in any dictionary, and the store holds at most
      \<open>max_size\<close> entries\<close>
  "cache_inv self =
     (distinct (map fst (cache self)) \<and> int (length (cache self)) \<le> max_size self)"

section \<open>Test doubles\<close>

text \<open>
  A committee member and a forecast with given names, and a text-completion stub whose
  critique names the critic and the agent whose forecast is criticised, so that the pairing
  of a run can be read off its result.
\<close>

definition demo_agent :: "string \<Rightarrow> LLMAgent" where
  "demo_agent nm = \<lparr>name = nm, system_prompt = [], weight = 1\<rparr>"

definition demo_forecast :: "string \<Rightarrow> real \<Rightarrow> AgentForecast" where
  "demo_forecast nm p =
     \<lparr>agent_name = nm, weight = 1, initial_reasoning = [], initial_probability = Some p,
      peer_critique = [], final_probability = p, final_reasoning = []\<rparr>"

definition echo_llm :: llm where
  "echo_llm self p =
     (case p of
        PeerReviewPrompt q nm pr rs \<Rightarrow> Inr (name self @ '' on '' @ nm)
      | _ \<Rightarrow> Inr ''PROBABILITY: 0.5'')"

definition weighted_forecast :: "string \<Rightarrow> real \<Rightarrow> real \<Rightarrow> AgentForecast" where
  "weighted_forecast nm w p =
     \<lparr>agent_name = nm, weight = w, initial_reasoning = [], initial_probability = Some p,
      peer_critique = [], final_probability = p, final_reasoning = []\<rparr>"

definition const_llm :: "string \<Rightarrow> llm" where
  \<comment> \<open>a text-completion stub that answers every prompt with the same text\<close>
  "const_llm response self p = Inr response"

section \<open>Reference definitions after the specification\<close>

definition weighted_mean_cdfs :: "real list \<Rightarrow> real list list \<Rightarrow> real list" where
  \<comment> \<open>the specification's combination of per-agent distributions, for comparison with
      \<open>aggregate_cdfs\<close>: the grid-point-wise weighted mean of the per-agent 201-point
      vectors, the weights normalised to sum to 1\<close>
  "weighted_mean_cdfs weights cdfs =
     map (\<lambda>i. sum_list (map (\<lambda>(w, cdf). w / sum_list weights * cdf ! i) (zip weights cdfs)))
       [0..<201]"

section \<open>The parser as an ordered list of matchers\<close>

text \<open>
  The specification describes the parser as an ordered list of pattern matchers, the first
  success winning.  The four matchers below give the value of each pattern before clamping,
  as \<open>parse_probability\<close> computes it; \<open>first_success\<close> tries a list of matchers in order.
\<close>

definition label_value :: "string \<Rightarrow> error + real option" where
  \<comment> \<open>\<open>PROBABILITY: X.XX\<close>: the number after the label\<close>
  "label_value text =
     (case re_search (label_at ''PROBABILITY:'') text of
        Some g \<Rightarrow> (case py_float g of Inl e \<Rightarrow> Inl e | Inr prob \<Rightarrow> Inr (Some prob))
      | None \<Rightarrow> Inr None)"

definition percent_value :: "string \<Rightarrow> error + real option" where
  \<comment> \<open>\<open>NN%\<close>: the number divided by 100\<close>
  "percent_value text =
     (case re_search percent_at text of
        Some g \<Rightarrow> (case py_float g of Inl e \<Rightarrow> Inl e | Inr v \<Rightarrow> Inr (Some (v / 100)))
      | None \<Rightarrow> Inr None)"

definition ratio_value :: "string \<Rightarrow> error + real option" where
  \<comment> \<open>\<open>A in B\<close>, \<open>A out of B\<close>: the quotient when \<open>B\<close> is positive, no value otherwise\<close>
  "ratio_value text =
     (case re_search ratio_at text of
        Some (g1, g2) \<Rightarrow>
          (case py_float g1 of
             Inl e \<Rightarrow> Inl e
           | Inr num \<Rightarrow>
               (case py_float g2 of
                  Inl e \<Rightarrow> Inl e
                | Inr denom \<Rightarrow> if denom > 0 then Inr (Some (num / denom)) else Inr None))
      | None \<Rightarrow> Inr None)"

definition chance_value :: "string \<Rightarrow> error + real option" where
  \<comment> \<open>\<open>odds|chance|likelihood ... N\<close>: the number, divided by 100 when it is above 1\<close>
  "chance_value text =
     (case re_search chance_at text of
        Some g \<Rightarrow>
          (case py_float g of
             Inl e \<Rightarrow> Inl e
           | Inr prob \<Rightarrow> Inr (Some (if prob > 1 then prob / 100 else prob)))
      | None \<Rightarrow> Inr None)"

fun first_success :: "(string \<Rightarrow> error + real option) list \<Rightarrow> string \<Rightarrow> error + real option" where
  "first_success [] text = Inr None"
| "first_success (m # ms) text =
     (case m text of
        Inl e \<Rightarrow> Inl e
      | Inr (Some v) \<Rightarrow> Inr (Some v)
      | Inr None \<Rightarrow> first_success ms text)"

definition probability_patterns :: "(string \<Rightarrow> error + real option) list" where
  "probability_patterns = [label_value, percent_value, ratio_value, chance_value]"

section \<open>The peer-review ring\<close>

lemma gather_Inr:
  "gather ts = Inr vs \<Longrightarrow> length vs = length ts \<and> (\<forall>i<length ts. ts ! i = Inr (vs ! i))"
proof (induction ts arbitrary: vs)
  case Nil
  then show ?case by simp
next
  case (Cons t ts)
  then show ?case
    by (auto split: sum.splits simp: nth_Cons split: nat.splits)
qed

lemma peer_review_loop_gather:
  assumes "\<And>j. j < length rest \<Longrightarrow> reviewed_idx (i + j) n < length forecasts"
  shows "peer_review_loop call_llm forecasts q n i rest critiques =
         (case gather (map (\<lambda>j. peer_review call_llm (rest ! j) q
                                   (forecasts ! reviewed_idx (i + j) n)) [0..<length rest]) of
            Inl e \<Rightarrow> Inl e
          | Inr cs \<Rightarrow> Inr (critiques @ cs))"
  using assms
proof (induction rest arbitrary: i critiques)
  case Nil
  then show ?case by simp
next
  case (Cons agent rest)
  have h0: "reviewed_idx i n < length forecasts"
    using Cons.prems [of 0] by simp
  have hs: "\<And>j. j < length rest \<Longrightarrow> reviewed_idx (Suc i + j) n < length forecasts"
    using Cons.prems [of "Suc j" for j] by simp
  have m: "map (\<lambda>j. peer_review call_llm ((agent # rest) ! j) q
                       (forecasts ! reviewed_idx (i + j) n)) [0..<length (agent # rest)]
           = peer_review call_llm agent q (forecasts ! reviewed_idx i n)
             # map (\<lambda>j. peer_review call_llm (rest ! j) q
                       (forecasts ! reviewed_idx (Suc i + j) n)) [0..<length rest]"
    by (simp add: upt_conv_Cons map_Suc_upt [symmetric] del: upt_Suc)
  show ?case
    unfolding m
    using h0 Cons.IH [OF hs, of "critiques @ [c]" for c]
    by (simp split: sum.splits)
qed

lemma reviewed_idx_less: "0 < n \<Longrightarrow> reviewed_idx i n < n"
  by (simp add: reviewed_idx_def)

lemma run_peer_reviews_gather:
  assumes "length forecasts = length agents"
  shows "run_peer_reviews call_llm agents forecasts q =
         gather (map (\<lambda>i. peer_review call_llm (agents ! i) q
                            (forecasts ! reviewed_idx i (length agents))) [0..<length agents])"
proof -
  have "\<And>j. j < length agents \<Longrightarrow> reviewed_idx (0 + j) (length agents) < length forecasts"
    using assms reviewed_idx_less [of "length agents"] by (cases agents) auto
  from peer_review_loop_gather [OF this, of agents call_llm q "[]"]
  show ?thesis
    by (simp add: run_peer_reviews_def split: sum.splits)
qed

lemma reviewed_idx_bij:
  assumes n: "0 < n"
  shows "bij_betw (\<lambda>i. reviewed_idx i n) {..<n} {..<n}"
proof -
  have wrap: "reviewed_idx x n = 0" if "Suc x = n" for x
    using that by (simp add: reviewed_idx_def)
  have step: "reviewed_idx x n = Suc x" if "Suc x < n" for x
    using that by (simp add: reviewed_idx_def)
  have inj: "inj_on (\<lambda>i. reviewed_idx i n) {..<n}"
  proof (rule inj_onI)
    fix x y
    assume x: "x \<in> {..<n}" and y: "y \<in> {..<n}"
      and e: "reviewed_idx x n = reviewed_idx y n"
    consider "Suc x = n" "Suc y = n" | "Suc x = n" "Suc y < n" | "Suc x < n" "Suc y = n"
      | "Suc x < n" "Suc y < n"
      using x y by fastforce
    then show "x = y"
    proof cases
      case 1
      then show ?thesis by simp
    next
      case 2
      with e wrap [of x] step [of y] show ?thesis by simp
    next
      case 3
      with e wrap [of y] step [of x] show ?thesis by simp
    next
      case 4
      with e step [of x] step [of y] show ?thesis by simp
    qed
  qed
  have "(\<lambda>i. reviewed_idx i n) ` {..<n} \<subseteq> {..<n}"
    using n by (auto simp: reviewed_idx_def)
  then have "(\<lambda>i. reviewed_idx i n) ` {..<n} = {..<n}"
    using inj by (simp add: card_image card_subset_eq)
  with inj show ?thesis by (simp add: bij_betw_def)
qed

lemma reviewed_idx_neq: "2 \<le> n \<Longrightarrow> i < n \<Longrightarrow> reviewed_idx i n \<noteq> i"
  by (cases "Suc i = n") (auto simp: reviewed_idx_def)

lemma revise_forecast_critique:
  "revise_forecast call_llm a q f c = Inr r \<Longrightarrow> peer_critique r = c"
  by (auto simp: revise_forecast_def Let_def split: option.splits sum.splits)

lemmas demo_defs = demo_agent_def demo_forecast_def echo_llm_def

lemmas regex_defs = label_at_def percent_at_def ratio_at_def chance_at_def chance_keyword_def
  match_number_def is_numchar_def is_digit_def is_space_def lower_char_def py_float_def dec_def

text \<open>
  C2, as amended.  With one forecast per agent and a committee of size \<open>n \<ge> 1\<close>, the
  peer-critique phase runs, for every index \<open>i\<close> in committee order, the critique of
  agent \<open>i\<close> on the forecast at position \<open>(i + 1) mod n\<close>; the pairing is a bijection of the
  positions, so each agent is critic exactly once and critiqued exactly once; for
  \<open>n \<ge> 2\<close> no agent critiques its own forecast, and for \<open>n = 1\<close> the only agent does.
\<close>

theorem peer_review_ring:
  assumes "length forecasts = length agents" and "n = length agents" and "1 \<le> n"
  shows "run_peer_reviews call_llm agents forecasts q =
           gather (map (\<lambda>i. peer_review call_llm (agents ! i) q (forecasts ! ((i + 1) mod n)))
                     [0..<n])
         \<and> bij_betw (\<lambda>i. reviewed_idx i n) {..<n} {..<n}
         \<and> (2 \<le> n \<longrightarrow> (\<forall>i<n. reviewed_idx i n \<noteq> i))
         \<and> (n = 1 \<longrightarrow> reviewed_idx 0 n = 0)"
proof -
  have "run_peer_reviews call_llm agents forecasts q =
          gather (map (\<lambda>i. peer_review call_llm (agents ! i) q (forecasts ! ((i + 1) mod n)))
                    [0..<n])"
    using run_peer_reviews_gather [OF assms(1), of call_llm q] assms(2)
    by (simp add: reviewed_idx_def)
  moreover have "bij_betw (\<lambda>i. reviewed_idx i n) {..<n} {..<n}"
    using assms(3) by (intro reviewed_idx_bij) simp
  moreover have "2 \<le> n \<longrightarrow> (\<forall>i<n. reviewed_idx i n \<noteq> i)"
    using reviewed_idx_neq by blast
  moreover have "n = 1 \<longrightarrow> reviewed_idx 0 n = 0"
    by (simp add: reviewed_idx_def)
  ultimately show ?thesis by blast
qed

theorem peer_review_ring_witness:
  "run_peer_reviews echo_llm [demo_agent ''alice'', demo_agent ''bob'']
       [demo_forecast ''alice'' 0.6, demo_forecast ''bob'' 0.8] ''q''
     = Inr [''alice on bob'', ''bob on alice'']
   \<and> bij_betw (\<lambda>i. reviewed_idx i 2) {..<2} {..<2}
   \<and> reviewed_idx 0 2 \<noteq> 0 \<and> reviewed_idx 1 2 \<noteq> 1"
  using peer_review_ring [of "[demo_forecast ''alice'' 0.6, demo_forecast ''bob'' 0.8]"
      "[demo_agent ''alice'', demo_agent ''bob'']" 2 echo_llm "''q''"]
  by (simp add: demo_defs peer_review_def upt_rec [of 0] upt_rec [of 1] upt_rec [of 2]
      numeral_2_eq_2 reviewed_idx_def)

text \<open>
  C2, as stated, fails for a committee of one: its only agent critiques its own forecast.
\<close>

theorem self_critique_counterexample:
  "run_peer_reviews echo_llm [demo_agent ''alice''] [demo_forecast ''alice'' 0.6] ''q''
     = Inr [''alice on alice'']
   \<and> reviewed_idx 0 1 = 0"
  by (simp add: run_peer_reviews_def reviewed_idx_def peer_review_def demo_defs)

text \<open>
  C1, what the code does.  When the critique phase and the revision phase both return, the
  critique handed to the revision of agent \<open>i\<close> (recorded in the field \<open>peer_critique\<close> of
  the revised forecast) is entry \<open>i\<close> of the critique list, which is the critique that
  agent \<open>i\<close> itself wrote on the forecast at position \<open>(i + 1) mod n\<close>.
\<close>

theorem revision_gets_written_critique:
  assumes len: "length forecasts = length agents"
    and rev: "run_peer_reviews call_llm agents forecasts q = Inr critiques"
    and res: "run_revisions call_llm agents forecasts critiques q = Inr revised"
    and i: "i < length agents"
  shows "peer_critique (revised ! i) = critiques ! i
         \<and> peer_review call_llm (agents ! i) q
              (forecasts ! reviewed_idx i (length agents)) = Inr (critiques ! i)"
proof -
  let ?n = "length agents"
  from rev run_peer_reviews_gather [OF len, of call_llm q]
  have g: "gather (map (\<lambda>i. peer_review call_llm (agents ! i) q
                              (forecasts ! reviewed_idx i ?n)) [0..<?n]) = Inr critiques"
    by simp
  from gather_Inr [OF g] i
  have lc: "length critiques = ?n"
    and wrote: "peer_review call_llm (agents ! i) q (forecasts ! reviewed_idx i ?n)
                = Inr (critiques ! i)"
    by auto
  from gather_Inr [OF res [unfolded run_revisions_def]] i len lc
  have "revise_forecast call_llm (agents ! i) q (forecasts ! i) (critiques ! i)
        = Inr (revised ! i)"
    by auto
  from revise_forecast_critique [OF this] wrote show ?thesis by simp
qed

theorem revision_gets_written_critique_witness:
  "run_peer_reviews echo_llm [demo_agent ''alice'', demo_agent ''bob'']
       [demo_forecast ''alice'' 0.6, demo_forecast ''bob'' 0.8] ''q''
     = Inr [''alice on bob'', ''bob on alice'']
   \<and> run_revisions echo_llm [demo_agent ''alice'', demo_agent ''bob'']
       [demo_forecast ''alice'' 0.6, demo_forecast ''bob'' 0.8]
       [''alice on bob'', ''bob on alice''] ''q''
     = Inr [\<lparr>agent_name = ''alice'', weight = 1, initial_reasoning = [],
             initial_probability = Some 0.6, peer_critique = ''alice on bob'',
             final_probability = 0.5, final_reasoning = ''PROBABILITY: 0.5''\<rparr>,
            \<lparr>agent_name = ''bob'', weight = 1, initial_reasoning = [],
             initial_probability = Some 0.8, peer_critique = ''bob on alice'',
             final_probability = 0.5, final_reasoning = ''PROBABILITY: 0.5''\<rparr>]
   \<and> peer_review echo_llm (demo_agent ''alice'') ''q'' (demo_forecast ''bob'' 0.8)
     = Inr ''alice on bob''"
proof -
  let ?agents = "[demo_agent ''alice'', demo_agent ''bob'']"
  let ?forecasts = "[demo_forecast ''alice'' 0.6, demo_forecast ''bob'' 0.8]"
  let ?critiques = "[''alice on bob'', ''bob on alice'']"
  let ?revised = "[\<lparr>agent_name = ''alice'', weight = 1, initial_reasoning = [],
             initial_probability = Some 0.6, peer_critique = ''alice on bob'',
             final_probability = 0.5, final_reasoning = ''PROBABILITY: 0.5''\<rparr>,
            \<lparr>agent_name = ''bob'', weight = 1, initial_reasoning = [],
             initial_probability = Some 0.8, peer_critique = ''bob on alice'',
             final_probability = 0.5, final_reasoning = ''PROBABILITY: 0.5''\<rparr>]"
  have len: "length ?forecasts = length ?agents" by simp
  have rev: "run_peer_reviews echo_llm ?agents ?forecasts ''q'' = Inr ?critiques"
    by (simp add: run_peer_reviews_def reviewed_idx_def peer_review_def demo_defs)
  have pp: "parse_probability ''PROBABILITY: 0.5'' = Inr (Some 0.5)"
    by (simp add: parse_probability_def regex_defs normalize_probability_def)
  have er: "extract_reasoning ''PROBABILITY: 0.5'' = ''PROBABILITY: 0.5''"
    by (simp add: extract_reasoning_def reasoning_at_def py_strip_def regex_defs)
  have res: "run_revisions echo_llm ?agents ?forecasts ?critiques ''q'' = Inr ?revised"
    by (simp add: run_revisions_def revise_forecast_def demo_defs pp er py_or_def)
  have i: "0 < length ?agents" by simp
  from revision_gets_written_critique [OF len rev res i] rev res
  show ?thesis by (simp add: reviewed_idx_def)
qed

section \<open>Reconstruction of a distribution from percentiles\<close>

lemma convex_le_100:
  fixes a b t :: real
  assumes "a \<le> 100" and "b \<le> 100" and "0 \<le> t" and "t \<le> 1"
  shows "(a + t * (b - a)) / 100 \<le> 1"
proof -
  have "a + t * (b - a) = (1 - t) * a + t * b" by (simp add: algebra_simps)
  also have "\<dots> \<le> (1 - t) * 100 + t * 100"
    using assms by (intro add_mono mult_left_mono) auto
  also have "\<dots> = 100" by (simp add: algebra_simps)
  finally show ?thesis by simp
qed

lemma first_segment_le_1:
  fixes x lower val :: real
  assumes "lower \<le> x" and "x < val" and "p \<le> (100::int)"
  shows "real_of_int p / 100 * (x - lower) / (val - lower) \<le> 1"
proof -
  let ?t = "(x - lower) / (val - lower)"
  have pos: "0 < val - lower" using assms by simp
  have t0: "0 \<le> ?t" using assms(1) pos by (intro divide_nonneg_pos) simp_all
  have t1: "?t \<le> 1" using pos assms(2) by (simp add: divide_le_eq_1)
  have eq: "real_of_int p / 100 * (x - lower) / (val - lower) = real_of_int p / 100 * ?t"
    by (simp only: times_divide_eq_right)
  have "real_of_int p / 100 * ?t \<le> 1"
  proof (cases "p \<le> 0")
    case True
    then have "real_of_int p / 100 * ?t \<le> 0"
      using t0 by (intro mult_nonpos_nonneg) simp_all
    then show ?thesis by simp
  next
    case False
    then have "real_of_int p / 100 * ?t \<le> 1 * 1"
      using t0 t1 assms(3) by (intro mult_mono) simp_all
    then show ?thesis by simp
  qed
  with eq show ?thesis by (simp only:)
qed

lemma later_segment_le_1:
  fixes x pv val :: real
  assumes "pv \<le> x" and "x < val" and "p \<le> (100::int)" and "pp \<le> (100::int)"
  shows "(real_of_int pp + (if val \<noteq> pv then (x - pv) / (val - pv) else 0)
            * real_of_int (p - pp)) / 100 \<le> 1"
proof -
  let ?t = "(x - pv) / (val - pv)"
  have pos: "0 < val - pv" using assms by simp
  have ne: "val \<noteq> pv" using pos by simp
  have t0: "0 \<le> ?t" using assms(1) pos by (intro divide_nonneg_pos) simp_all
  have t1: "?t \<le> 1" using pos assms(2) by (simp add: divide_le_eq_1)
  have "(real_of_int pp + ?t * (real_of_int p - real_of_int pp)) / 100 \<le> 1"
    using assms(3,4) t0 t1 by (intro convex_le_100) auto
  with ne show ?thesis by simp
qed

lemma length_max_scan: "length (max_scan prev cs) = length cs"
  by (induction cs arbitrary: prev) (simp_all add: Let_def)

lemma max_scan_ge: "x \<in> set (max_scan prev cs) \<Longrightarrow> prev \<le> x"
proof (induction cs arbitrary: prev)
  case Nil
  then show ?case by simp
next
  case (Cons c cs)
  from Cons.prems have "x = max c prev \<or> x \<in> set (max_scan (max c prev) cs)"
    by (simp add: Let_def)
  then show ?case
  proof
    assume "x = max c prev"
    then show ?thesis by simp
  next
    assume "x \<in> set (max_scan (max c prev) cs)"
    from Cons.IH [OF this] show ?thesis by simp
  qed
qed

lemma sorted_max_scan: "sorted (prev # max_scan prev cs)"
proof (induction cs arbitrary: prev)
  case Nil
  show ?case by simp
next
  case (Cons c cs)
  let ?m = "max c prev"
  have s: "sorted (?m # max_scan ?m cs)" by (rule Cons.IH)
  have "prev \<le> ?m" by (rule max.cobounded2)
  with s have "sorted (prev # ?m # max_scan ?m cs)"
    by (simp only: sorted2 simp_thms)
  then show ?case by (simp only: max_scan.simps Let_def)
qed

lemma last_max_scan:
  assumes "cs \<noteq> []" and "last cs = 1" and "prev \<le> 1" and "\<forall>x\<in>set cs. x \<le> 1"
  shows "last (max_scan prev cs) = 1"
  using assms
proof (induction cs arbitrary: prev)
  case Nil
  then show ?case by simp
next
  case (Cons c cs)
  from Cons.prems(4) have c1: "c \<le> 1" and rest: "\<forall>x\<in>set cs. x \<le> 1" by simp_all
  show ?case
  proof (cases "cs = []")
    case True
    with Cons.prems(2) have "c = 1" by simp
    with True Cons.prems(3) show ?thesis by (simp add: Let_def)
  next
    case False
    from Cons.prems(2) False have l: "last cs = 1" by simp
    from c1 Cons.prems(3) have m1: "max c prev \<le> 1" by simp
    have "last (max_scan (max c prev) cs) = 1"
      by (rule Cons.IH [OF False l m1 rest])
    moreover from False have "max_scan (max c prev) cs \<noteq> []"
      by (cases cs) (simp_all add: Let_def)
    ultimately show ?thesis by (simp add: Let_def)
  qed
qed

lemma interpolate_le_1:
  assumes "lower \<le> x"
    and "\<forall>q\<in>set ps. fst q \<le> 100"
    and "case prev of None \<Rightarrow> True | Some q \<Rightarrow> fst q \<le> 100 \<and> snd q \<le> x"
  shows "interpolate lower x prev ps \<le> 1"
  using assms
proof (induction ps arbitrary: prev)
  case Nil
  show ?case by simp
next
  case (Cons pv ps)
  obtain p val where pv: "pv = (p, val)" by (cases pv)
  from Cons.prems(2) pv have p100: "p \<le> 100" by simp
  show ?case
  proof (cases "x < val")
    case False
    have "interpolate lower x (Some (p, val)) ps \<le> 1"
    proof (rule Cons.IH)
      show "lower \<le> x" by (rule Cons.prems(1))
      show "\<forall>q\<in>set ps. fst q \<le> 100" using Cons.prems(2) by simp
      show "case Some (p, val) of None \<Rightarrow> True | Some q \<Rightarrow> fst q \<le> 100 \<and> snd q \<le> x"
        using False p100 by simp
    qed
    with False pv show ?thesis by simp
  next
    case True
    show ?thesis
    proof (cases prev)
      case None
      show ?thesis
      proof (cases "val = lower")
        case True
        with \<open>x < val\<close> None pv show ?thesis by simp
      next
        case False
        from first_segment_le_1 [OF Cons.prems(1) True p100]
        show ?thesis using True None pv False by simp
      qed
    next
      case (Some q)
      obtain pp ppv where q: "q = (pp, ppv)" by (cases q)
      from Cons.prems(3) Some q have pp100: "pp \<le> 100" and le: "ppv \<le> x" by simp_all
      from later_segment_le_1 [OF le True p100 pp100]
      show ?thesis using True Some q pv by (simp add: Let_def)
    qed
  qed
qed

lemma pin_and_scan_shape:
  assumes len: "2 \<le> length raw"
  shows "length (pin_and_scan raw) = length raw \<and> sorted (pin_and_scan raw)
         \<and> pin_and_scan raw ! 0 = 0"
proof -
  define pinned where "pinned = (raw[0 := 0])[length raw - 1 := 1]"
  have lp: "length pinned = length raw" by (simp add: pinned_def)
  then obtain c cs where pc: "pinned = c # cs" using len by (cases pinned) auto
  have pos: "0 < length raw" and ne0: "length raw - 1 \<noteq> 0" using len by linarith+
  have "pinned ! 0 = 0" using pos ne0 by (simp add: pinned_def nth_list_update)
  with pc have c0: "c = 0" by simp
  have res: "pin_and_scan raw = c # max_scan c cs"
    using pc by (simp add: pin_and_scan_def pinned_def Let_def)
  have "length (c # max_scan c cs) = length raw"
    using lp pc by (simp add: length_max_scan)
  moreover have "sorted (c # max_scan c cs)" by (rule sorted_max_scan)
  ultimately show ?thesis using res c0 by simp
qed

lemma pin_and_scan_last:
  assumes len: "2 \<le> length raw" and le1: "\<forall>x\<in>set raw. x \<le> 1"
  shows "pin_and_scan raw ! (length raw - 1) = 1"
proof -
  define pinned where "pinned = (raw[0 := 0])[length raw - 1 := 1]"
  have lp: "length pinned = length raw" by (simp add: pinned_def)
  then obtain c cs where pc: "pinned = c # cs" using len by (cases pinned) auto
  have pos: "0 < length raw" and ne0: "length raw - 1 \<noteq> 0" using len by linarith+
  have "pinned ! 0 = 0" using pos ne0 by (simp add: pinned_def nth_list_update)
  with pc have c0: "c = 0" by simp
  have res: "pin_and_scan raw = c # max_scan c cs"
    using pc by (simp add: pin_and_scan_def pinned_def Let_def)
  have lcs: "length cs = length raw - 1" using lp pc by simp
  then have ne: "cs \<noteq> []" using len by auto
  have "pinned ! (length raw - 1) = 1"
    unfolding pinned_def using pos by (intro nth_list_update_eq) simp
  moreover have "last pinned = pinned ! (length raw - 1)"
    using pc lp by (simp only: last_conv_nth list.distinct not_False_eq_True)
  ultimately have "last pinned = 1" by simp
  with pc ne have lcs1: "last cs = 1" by simp
  have "set pinned \<subseteq> insert 1 (insert 0 (set raw))"
    unfolding pinned_def
    using set_update_subset_insert [of "raw[0 := 0]" "length raw - 1" 1]
      set_update_subset_insert [of raw 0 0]
    by blast
  then have "\<forall>x\<in>set pinned. x \<le> 1" using le1 by auto
  with pc have all: "\<forall>x\<in>set cs. x \<le> 1" by simp
  have c1: "c \<le> 1" using c0 by simp
  have lm: "last (max_scan c cs) = 1"
    by (rule last_max_scan [OF ne lcs1 c1 all])
  have nem: "max_scan c cs \<noteq> []" using ne length_max_scan [of c cs] by auto
  have "length (c # max_scan c cs) = length raw"
    using lp pc by (simp add: length_max_scan)
  then have "(c # max_scan c cs) ! (length raw - 1) = last (c # max_scan c cs)"
    by (simp add: last_conv_nth del: last.simps)
  also have "\<dots> = 1" using nem lm by simp
  finally show ?thesis using res by simp
qed

lemma cdf_from_percentiles_pin:
  "cdf_from_percentiles percentiles lower upper =
     pin_and_scan (map (\<lambda>i. interpolate lower (lower + (upper - lower) * real i / 200)
                               None (sort_key fst percentiles)) [0..<201])"
  by (simp only: cdf_from_percentiles_def pin_and_scan_def Let_def)


lemma cdf_from_percentiles_raw:
  fixes percentiles :: "(int \<times> real) list"
  defines "raw lower upper \<equiv>
             map (\<lambda>i. interpolate lower (lower + (upper - lower) * real i / 200)
                         None (sort_key fst percentiles)) [0..<201]"
  shows "length (raw lower upper) = 201"
    and "lower < upper \<Longrightarrow> \<forall>q\<in>set percentiles. fst q \<le> 100
         \<Longrightarrow> \<forall>x\<in>set (raw lower upper). x \<le> 1"
proof -
  show "length (raw lower upper) = 201"
    unfolding raw_def by (simp only: length_map length_upt diff_zero)
  assume lu: "lower < upper" and pct: "\<forall>q\<in>set percentiles. fst q \<le> 100"
  let ?f = "\<lambda>i. interpolate lower (lower + (upper - lower) * real i / 200)
                   None (sort_key fst percentiles)"
  have keys: "\<forall>q\<in>set (sort_key fst percentiles). fst q \<le> 100"
    using pct by (simp only: set_sort)
  show "\<forall>x\<in>set (raw lower upper). x \<le> 1"
  proof
    fix x assume "x \<in> set (raw lower upper)"
    then obtain i where x: "x = ?f i" unfolding raw_def by (auto simp only: set_map)
    have "0 \<le> (upper - lower) * real i / 200" using lu by simp
    then have lo: "lower \<le> lower + (upper - lower) * real i / 200" by linarith
    have "?f i \<le> 1"
      by (rule interpolate_le_1 [OF lo keys]) simp
    with x show "x \<le> 1" by (simp only:)
  qed
qed

lemma cdf_from_percentiles_monotone:
  "length (cdf_from_percentiles percentiles lower upper) = 201
   \<and> sorted (cdf_from_percentiles percentiles lower upper)
   \<and> cdf_from_percentiles percentiles lower upper ! 0 = 0"
proof -
  let ?raw = "map (\<lambda>i. interpolate lower (lower + (upper - lower) * real i / 200)
                         None (sort_key fst percentiles)) [0..<201]"
  have len: "length ?raw = 201" by (rule cdf_from_percentiles_raw(1))
  then have len2: "2 \<le> length ?raw" by linarith
  from pin_and_scan_shape [OF len2] show ?thesis
    unfolding cdf_from_percentiles_pin len by simp
qed

lemma cdf_from_percentiles_last:
  assumes lu: "lower < upper" and pct: "\<forall>q\<in>set percentiles. fst q \<le> 100"
  shows "cdf_from_percentiles percentiles lower upper ! 200 = 1"
proof -
  let ?raw = "map (\<lambda>i. interpolate lower (lower + (upper - lower) * real i / 200)
                         None (sort_key fst percentiles)) [0..<201]"
  have len: "length ?raw = 201" by (rule cdf_from_percentiles_raw(1))
  then have len2: "2 \<le> length ?raw" by linarith
  have le1: "\<forall>x\<in>set ?raw. x \<le> 1" by (rule cdf_from_percentiles_raw(2) [OF lu pct])
  from pin_and_scan_last [OF len2 le1] show ?thesis
    unfolding cdf_from_percentiles_pin len by simp
qed

text \<open>
  C5.  A percentile dictionary has percentiles as keys, so every key is at most 100 (the
  parser produces the keys 10, 20, \<dots>, 90).  For every such dictionary, empty or not, and
  bounds \<open>lower < upper\<close>, the reconstructed distribution has 201 entries, is
  non-decreasing, starts with exactly 0 and ends with exactly 1.
\<close>

theorem cdf_from_percentiles_shape:
  assumes lu: "lower < upper"
    and pct: "\<forall>q\<in>set percentiles. fst q \<le> 100"
  shows "length (cdf_from_percentiles percentiles lower upper) = 201
         \<and> sorted (cdf_from_percentiles percentiles lower upper)
         \<and> cdf_from_percentiles percentiles lower upper ! 0 = 0
         \<and> cdf_from_percentiles percentiles lower upper ! 200 = 1"
  using cdf_from_percentiles_monotone [of percentiles lower upper]
    cdf_from_percentiles_last [OF lu pct]
  by (simp only: simp_thms)

theorem cdf_from_percentiles_shape_witness:
  "length (cdf_from_percentiles [(10, 2), (50, 5), (90, 8)] 0 10) = 201
   \<and> sorted (cdf_from_percentiles [(10, 2), (50, 5), (90, 8)] 0 10)
   \<and> cdf_from_percentiles [(10, 2), (50, 5), (90, 8)] 0 10 ! 0 = 0
   \<and> cdf_from_percentiles [(10, 2), (50, 5), (90, 8)] 0 10 ! 200 = 1"
  using cdf_from_percentiles_shape [of 0 10 "[(10, 2), (50, 5), (90, 8)]"]
  by simp

lemma max_scan_last_ge:
  assumes "x \<in> set cs"
  shows "x \<le> last (max_scan prev cs)"
  using assms
proof (induction cs arbitrary: prev)
  case Nil
  then show ?case by simp
next
  case (Cons c cs)
  let ?m = "max c prev"
  show ?case
  proof (cases "cs = []")
    case True
    with Cons.prems have "x = c" by simp
    moreover have "c \<le> ?m" by (rule max.cobounded1)
    ultimately show ?thesis using True by (simp add: Let_def)
  next
    case False
    then have ne: "max_scan ?m cs \<noteq> []"
      using length_max_scan [of ?m cs] by (cases cs) auto
    have eq: "last (max_scan prev (c # cs)) = last (max_scan ?m cs)"
      using ne by (simp add: Let_def)
    show ?thesis
    proof (cases "x \<in> set cs")
      case True
      then have "x \<le> last (max_scan ?m cs)" by (rule Cons.IH)
      with eq show ?thesis by (simp only:)
    next
      case False
      with Cons.prems have xc: "x = c" by simp
      have "last (max_scan ?m cs) \<in> set (max_scan ?m cs)" using ne by (rule last_in_set)
      then have "?m \<le> last (max_scan ?m cs)" by (rule max_scan_ge)
      moreover have "c \<le> ?m" by (rule max.cobounded1)
      ultimately have "c \<le> last (max_scan ?m cs)" by (rule order_trans [rotated])
      with eq xc show ?thesis by (simp only:)
    qed
  qed
qed

lemma pin_and_scan_last_ge:
  assumes len: "2 \<le> length raw" and i0: "0 < i" and i1: "i < length raw - 1"
  shows "raw ! i \<le> pin_and_scan raw ! (length raw - 1)"
proof -
  define pinned where "pinned = (raw[0 := 0])[length raw - 1 := 1]"
  have lp: "length pinned = length raw" by (simp add: pinned_def)
  then obtain c cs where pc: "pinned = c # cs" using len by (cases pinned) auto
  have res: "pin_and_scan raw = c # max_scan c cs"
    using pc by (simp add: pin_and_scan_def pinned_def Let_def)
  have "pinned ! i = raw ! i" using i0 i1 by (simp add: pinned_def)
  moreover obtain j where j: "i = Suc j" using i0 by (cases i) auto
  ultimately have rj: "cs ! j = raw ! i" using pc by simp
  have lcs: "Suc (length cs) = length raw" using lp pc by simp
  then have "j < length cs" using i1 j by linarith
  then have "cs ! j \<in> set cs" by (rule nth_mem)
  then have "cs ! j \<le> last (max_scan c cs)" by (rule max_scan_last_ge)
  moreover have ne: "max_scan c cs \<noteq> []"
    using \<open>j < length cs\<close> length_max_scan [of c cs] by auto
  have "length (c # max_scan c cs) = length raw"
    using lcs by (simp add: length_max_scan)
  then have "(c # max_scan c cs) ! (length raw - 1) = last (c # max_scan c cs)"
    by (simp add: last_conv_nth del: last.simps)
  then have "pin_and_scan raw ! (length raw - 1) = last (max_scan c cs)"
    using ne res by simp
  ultimately show ?thesis using rj by (simp only:)
qed

text \<open>
  The bound on the keys is needed: 500 is not a percentile, and with the key 500 the
  interpolated values exceed 1 before the scan, which then lifts the last entry above the
  pinned 1.
\<close>

lemma key_above_100:
  "199 / 40 \<le> cdf_from_percentiles [(500, 1)] 0 1 ! 200"
proof -
  let ?f = "\<lambda>i. interpolate 0 (0 + (1 - 0) * real i / 200) None (sort_key fst [(500 :: int, 1 :: real)])"
  let ?raw = "map ?f [0..<201]"
  have len: "length ?raw = 201" by (simp only: length_map length_upt diff_zero)
  have "?raw ! 199 = ?f (0 + 199)" by (rule nth_map_upt) simp
  also have "\<dots> = 199 / 40" by simp
  finally have v: "?raw ! 199 = 199 / 40" .
  have l2: "2 \<le> length ?raw" and l199: "199 < length ?raw - 1"
    unfolding len by simp_all
  have "?raw ! 199 \<le> pin_and_scan ?raw ! (length ?raw - 1)"
    by (rule pin_and_scan_last_ge [OF l2 _ l199]) simp
  then show ?thesis
    unfolding cdf_from_percentiles_pin v len by simp
qed

section \<open>Aggregation of numeric and multiple-choice forecasts\<close>

lemma fold_pass: "fold (\<lambda>forecast acc. acc) forecasts a = a"
  by (induction forecasts) simp_all

text \<open>
  C3, what the code does.  \<open>aggregate_cdfs\<close> returns 201 zeros whatever the forecasts
  are.  For a committee of one agent whose percentiles are \<open>{50: 5}\<close> over \<open>[0, 10]\<close>,
  the weighted mean of the per-agent distributions ends with 1, the result of the code
  with 0.
\<close>

theorem aggregate_cdfs_all_zero:
  "aggregate_cdfs forecasts lower upper = replicate 201 0
   \<and> aggregate_cdfs [demo_forecast ''alice'' 5] 0 10 ! 200 = 0
   \<and> weighted_mean_cdfs [1] [cdf_from_percentiles [(50, 5)] 0 10] ! 200 = 1"
proof -
  have z: "aggregate_cdfs fs lo hi = replicate 201 0" for fs lo hi
    by (simp only: aggregate_cdfs_def Let_def fold_pass)
  have "cdf_from_percentiles [(50, 5)] 0 10 ! 200 = 1"
    by (rule cdf_from_percentiles_last) simp_all
  then have "weighted_mean_cdfs [1] [cdf_from_percentiles [(50, 5)] 0 10] ! 200 = 1"
    unfolding weighted_mean_cdfs_def by (simp del: upt_Suc)
  then show ?thesis by (simp add: z)
qed

text \<open>
  C4, what the code does.  \<open>aggregate_multiple_choice\<close> returns the uniform distribution
  over the options whatever the forecasts are: an agent that answers 0.9 for Yes and 0.1
  for No leaves the committee at one half each.
\<close>

theorem multiple_choice_always_uniform:
  "aggregate_multiple_choice forecasts [''Yes'', ''No''] = [(''Yes'', 1 / 2), (''No'', 1 / 2)]
   \<and> parse_option_probabilities ''Yes: 0.9 No: 0.1'' [''Yes'', ''No'']
       = Inr [(''Yes'', 9 / 10), (''No'', 1 / 10)]
   \<and> map_sum id final_option_probs
         (forecast_multiple_choice (const_llm ''Yes: 0.9 No: 0.1'') [demo_agent ''alice''] 1
            ''q'' ''rc'' [''Yes'', ''No''] [])
       = Inr (Some [(''Yes'', 1 / 2), (''No'', 1 / 2)])"
proof -
  have a: "aggregate_multiple_choice fs [''Yes'', ''No''] = [(''Yes'', 1 / 2), (''No'', 1 / 2)]"
    for fs
    by (simp add: aggregate_multiple_choice_def)
  have p: "parse_option_probabilities ''Yes: 0.9 No: 0.1'' [''Yes'', ''No'']
           = Inr [(''Yes'', 9 / 10), (''No'', 1 / 10)]"
    by code_simp
  show ?thesis
    by (simp add: a p forecast_multiple_choice_def const_llm_def Let_def)
qed

section \<open>The median of a numeric forecast\<close>

text \<open>
  C10.  In the numeric path, when the completion call returns and the percentiles parse,
  the agent's \<open>final_probability\<close> is the midpoint of the bounds both when the response
  has no median and when its parsed median is exactly zero.
\<close>

theorem zero_median_is_midpoint:
  assumes "call_llm agent (NumericPrompt q rc lo hi ol ou rs) = Inr response"
    and "parse_percentiles response = Inr percentiles"
    and "parse_median response = Inr None \<or> parse_median response = Inr (Some 0)"
  shows "map_sum id AgentForecast.final_probability
           (forecast_numeric_agent call_llm agent q rc rs lo hi ol ou) = Inr ((lo + hi) / 2)"
  using assms by (auto simp: forecast_numeric_agent_def py_or_def)

theorem zero_median_is_midpoint_witness:
  "parse_median ''MEDIAN: 0'' = Inr (Some 0)
   \<and> map_sum id AgentForecast.final_probability
        (forecast_numeric_agent (const_llm ''MEDIAN: 0'') (demo_agent ''alice'')
           ''q'' ''rc'' [] 0 10 False False) = Inr 5"
proof -
  have m: "parse_median ''MEDIAN: 0'' = Inr (Some 0)"
    by (simp add: parse_median_def regex_defs)
  have p: "parse_percentiles ''MEDIAN: 0'' = Inr []"
    by code_simp
  have c: "const_llm ''MEDIAN: 0'' (demo_agent ''alice'')
             (NumericPrompt ''q'' ''rc'' 0 10 False False []) = Inr ''MEDIAN: 0''"
    by (simp add: const_llm_def)
  from zero_median_is_midpoint [where call_llm = "const_llm ''MEDIAN: 0''"
      and agent = "demo_agent ''alice''" and response = "''MEDIAN: 0''", OF c p] m
  show ?thesis by simp
qed

section \<open>Binary aggregation in logit space\<close>

lemma logit_06: "logit 0.6 = ln (3 / 2)"
  by (simp add: logit_def)

lemma logit_08: "logit 0.8 = ln 4"
  by (simp add: logit_def)

lemma ln_24: "ln (3 / 2 :: real) + 2 * ln 4 = ln 24"
proof -
  have a: "ln (4 * 4 :: real) = ln 4 + ln 4" by (rule ln_mult_pos) simp_all
  have b: "ln (3 / 2 * (4 * 4) :: real) = ln (3 / 2) + ln (4 * 4)"
    by (rule ln_mult_pos) simp_all
  have "ln (24 :: real) = ln (3 / 2 * (4 * 4))" by simp
  also have "\<dots> = ln (3 / 2) + (ln 4 + ln 4)" by (simp only: b a)
  finally show ?thesis by simp
qed

lemma mean_logit: "(1 * logit 0.6 + 2 * logit 0.8) / 3 = ln 24 / 3"
  by (simp only: logit_06 logit_08 mult_1 ln_24)

lemma exp_cube: "exp (- (ln 24 / 3) :: real) ^ 3 = 1 / 24"
proof -
  have "exp (- (ln 24 / 3) :: real) ^ 3 = exp (of_nat 3 * (- (ln 24 / 3)))"
    by (rule exp_of_nat_mult [symmetric])
  also have "\<dots> = exp (- ln 24)" by simp
  also have "\<dots> = 1 / 24" by (simp add: exp_minus)
  finally show ?thesis .
qed

lemma exp_bounds: "0.3465 < exp (- (ln 24 / 3) :: real) \<and> exp (- (ln 24 / 3) :: real) < 0.3468"
proof -
  let ?e = "exp (- (ln 24 / 3) :: real)"
  have pos: "0 \<le> ?e" by simp
  have lo: "0.3465 < ?e"
  proof (rule ccontr)
    assume "\<not> 0.3465 < ?e"
    then have "?e \<le> 0.3465" by simp
    then have "?e ^ 3 \<le> 0.3465 ^ 3" using pos by (rule power_mono)
    then show False unfolding exp_cube by (simp add: power3_eq_cube)
  qed
  have hi: "?e < 0.3468"
  proof (rule ccontr)
    assume "\<not> ?e < 0.3468"
    then have "0.3468 \<le> ?e" by simp
    then have "(0.3468 :: real) ^ 3 \<le> ?e ^ 3" by (rule power_mono) simp
    then show False unfolding exp_cube by (simp add: power3_eq_cube)
  qed
  from lo hi show ?thesis ..
qed

lemma inv_logit_value:
  "0.7425 < inv_logit (ln 24 / 3) \<and> inv_logit (ln 24 / 3) < 0.7427"
proof -
  let ?e = "exp (- (ln 24 / 3) :: real)"
  from exp_bounds have lo: "0.3465 < ?e" and hi: "?e < 0.3468" by simp_all
  have "1 / (1 + ?e) < 1 / (1 + 0.3465)"
    using lo by (intro divide_strict_left_mono) simp_all
  moreover have "1 / (1 + 0.3468) < 1 / (1 + ?e)"
    using hi lo by (intro divide_strict_left_mono) simp_all
  ultimately show ?thesis unfolding inv_logit_def by simp
qed

lemma aggregate_06_08:
  "aggregate_logit_space [0.6, 0.8] [1, 2] = Inr (inv_logit ((1 * logit 0.6 + 2 * logit 0.8) / 3))"
  by (simp add: aggregate_logit_space_def weighted_average_def algebra_simps)

text \<open>
  C6, as amended.  For final probabilities \<open>[0.6, 0.8]\<close> with weights \<open>[1, 2]\<close>, binary
  aggregation returns \<open>inv_logit ((1 * logit 0.6 + 2 * logit 0.8) / 3)\<close>, with
  \<open>logit p = ln (p / (1 - p))\<close> for these probabilities; the value is 0.7426 within
  \<open>1e-3\<close>.
\<close>

theorem binary_scenario:
  "aggregate_logit_space [0.6, 0.8] [1, 2]
     = Inr (inv_logit ((1 * logit 0.6 + 2 * logit 0.8) / 3))
   \<and> aggregate_forecasts [weighted_forecast ''a'' 1 0.6, weighted_forecast ''b'' 2 0.8]
     = Inr (inv_logit ((1 * logit 0.6 + 2 * logit 0.8) / 3))
   \<and> logit 0.6 = ln (0.6 / (1 - 0.6)) \<and> logit 0.8 = ln (0.8 / (1 - 0.8))
   \<and> \<bar>inv_logit ((1 * logit 0.6 + 2 * logit 0.8) / 3) - 0.7426\<bar> < 1 / 1000"
proof -
  have "aggregate_forecasts [weighted_forecast ''a'' 1 0.6, weighted_forecast ''b'' 2 0.8]
        = aggregate_logit_space [0.6, 0.8] [1, 2]"
    by (simp add: aggregate_forecasts_def weighted_forecast_def)
  moreover have "logit 0.6 = ln (0.6 / (1 - 0.6))" "logit 0.8 = ln (0.8 / (1 - 0.8))"
    by (simp_all add: logit_def)
  moreover have "\<bar>inv_logit ((1 * logit 0.6 + 2 * logit 0.8) / 3) - 0.7426\<bar> < 1 / 1000"
  proof -
    from inv_logit_value have a: "0.7425 < inv_logit (ln 24 / 3)"
      and b: "inv_logit (ln 24 / 3) < 0.7427" by (simp_all only: simp_thms)
    have "(0.7426 :: real) - 1 / 1000 \<le> 0.7425" by simp
    then have lo: "0.7426 - 1 / 1000 < inv_logit (ln 24 / 3)" using a by (rule le_less_trans)
    have "(0.7427 :: real) \<le> 0.7426 + 1 / 1000" by simp
    with b have hi: "inv_logit (ln 24 / 3) < 0.7426 + 1 / 1000" by (rule less_le_trans)
    from lo hi show ?thesis unfolding mean_logit by (simp only: abs_diff_less_iff simp_thms)
  qed
  ultimately show ?thesis using aggregate_06_08 by (simp only: simp_thms)
qed

text \<open>
  C6, as stated, fails: the aggregate is not within \<open>1e-3\<close> of 0.72.
\<close>

theorem binary_scenario_counterexample:
  "aggregate_logit_space [0.6, 0.8] [1, 2]
     = Inr (inv_logit ((1 * logit 0.6 + 2 * logit 0.8) / 3))
   \<and> \<not> \<bar>inv_logit ((1 * logit 0.6 + 2 * logit 0.8) / 3) - 0.72\<bar> \<le> 1 / 1000"
proof -
  have "\<not> \<bar>inv_logit ((1 * logit 0.6 + 2 * logit 0.8) / 3) - 0.72\<bar> \<le> 1 / 1000"
    unfolding mean_logit using inv_logit_value by simp
  with aggregate_06_08 show ?thesis by (simp only: simp_thms)
qed

lemma weighted_average_zero_weights:
  assumes "probabilities \<noteq> []" and "length weights = length probabilities"
    and "\<forall>w\<in>set weights. w = 0"
  shows "weighted_average probabilities weights = Inr 0.5"
proof -
  have "sum_list weights = 0" using assms(3) by (induction weights) simp_all
  then show ?thesis using assms(1,2) by (simp add: weighted_average_def)
qed

text \<open>
  With every weight zero the guard of \<open>weighted_average\<close> answers 0.5 in place of the
  mean logit, whatever the probabilities are.
\<close>

lemma zero_weights_value:
  assumes "forecasts \<noteq> []" and "\<forall>f\<in>set forecasts. AgentForecast.weight f = 0"
  shows "aggregate_forecasts forecasts = Inr (inv_logit 0.5)"
proof -
  have "weighted_average (map logit (map AgentForecast.final_probability forecasts))
          (map AgentForecast.weight forecasts) = Inr 0.5"
    using assms by (intro weighted_average_zero_weights) simp_all
  then show ?thesis by (simp add: aggregate_forecasts_def aggregate_logit_space_def)
qed

lemma inv_logit_half: "1 / 2 < inv_logit 0.5"
proof -
  have "exp (- 0.5 :: real) < 1" by simp
  then have "1 / (1 + 1) < 1 / (1 + exp (- 0.5 :: real))"
    by (intro divide_strict_left_mono) (simp_all add: add_pos_pos)
  then show ?thesis by (simp add: inv_logit_def)
qed

text \<open>
  C8, as amended.  When the forecast list is non-empty and every weight is zero, binary
  aggregation does not average the inputs: the guard for a zero total weight makes the
  aggregate one fixed number, the same for all such lists, whatever the probabilities
  are.  The aggregation returns that number: no division by zero takes place and no
  error is raised.
\<close>

theorem zero_weights_constant:
  "\<exists>c. \<forall>forecasts. forecasts \<noteq> [] \<and> (\<forall>f\<in>set forecasts. AgentForecast.weight f = 0)
        \<longrightarrow> aggregate_forecasts forecasts = Inr c"
proof -
  have "\<forall>forecasts. forecasts \<noteq> [] \<and> (\<forall>f\<in>set forecasts. AgentForecast.weight f = 0)
          \<longrightarrow> aggregate_forecasts forecasts = Inr (inv_logit 0.5)"
    using zero_weights_value by blast
  then show ?thesis by (rule exI)
qed

theorem zero_weights_constant_witness:
  "(\<exists>r. aggregate_forecasts [weighted_forecast ''a'' 0 0.2, weighted_forecast ''b'' 0 0.2]
          = Inr r)
   \<and> aggregate_forecasts [weighted_forecast ''a'' 0 0.2, weighted_forecast ''b'' 0 0.2]
     = aggregate_forecasts [weighted_forecast ''c'' 0 0.9]"
proof -
  from zero_weights_constant obtain c
    where c: "\<forall>forecasts. forecasts \<noteq> [] \<and> (\<forall>f\<in>set forecasts. AgentForecast.weight f = 0)
                \<longrightarrow> aggregate_forecasts forecasts = Inr c" ..
  have two: "aggregate_forecasts [weighted_forecast ''a'' 0 0.2, weighted_forecast ''b'' 0 0.2]
             = Inr c"
    using c [rule_format, of "[weighted_forecast ''a'' 0 0.2, weighted_forecast ''b'' 0 0.2]"]
    by (simp add: weighted_forecast_def)
  have one: "aggregate_forecasts [weighted_forecast ''c'' 0 0.9] = Inr c"
    using c [rule_format, of "[weighted_forecast ''c'' 0 0.9]"]
    by (simp add: weighted_forecast_def)
  from two one show ?thesis by simp
qed

text \<open>
  C8, as stated, fails: two agents of weight zero that both say 0.2 have unweighted mean
  0.2, and the aggregate is above one half.
\<close>

theorem zero_weights_counterexample:
  "aggregate_forecasts [weighted_forecast ''a'' 0 0.2, weighted_forecast ''b'' 0 0.2]
     = Inr (inv_logit 0.5)
   \<and> inv_logit 0.5 \<noteq> 0.2"
proof -
  have "aggregate_forecasts [weighted_forecast ''a'' 0 0.2, weighted_forecast ''b'' 0 0.2]
        = Inr (inv_logit 0.5)"
    by (simp add: aggregate_forecasts_def aggregate_logit_space_def weighted_average_def
        weighted_forecast_def)
  moreover have "inv_logit 0.5 \<noteq> 0.2" using inv_logit_half by simp
  ultimately show ?thesis by (simp only: simp_thms)
qed

section \<open>The bound of the response cache\<close>

lemma set_map_insort_key: "set (map g (insort_key f x ys)) = insert (g x) (set (map g ys))"
  by (induction ys) auto

lemma distinct_map_insort_key:
  "distinct (map g (insort_key f x ys)) = (g x \<notin> set (map g ys) \<and> distinct (map g ys))"
proof (induction ys)
  case Nil
  show ?case by simp
next
  case (Cons y ys)
  show ?case
  proof (cases "f x \<le> f y")
    case True
    then show ?thesis by simp
  next
    case False
    then have "distinct (map g (insort_key f x (y # ys)))
               = (g y \<notin> set (map g (insort_key f x ys)) \<and> distinct (map g (insort_key f x ys)))"
      by simp
    also have "\<dots> = (g y \<notin> insert (g x) (set (map g ys))
                     \<and> g x \<notin> set (map g ys) \<and> distinct (map g ys))"
      by (simp only: set_map_insort_key Cons.IH)
    also have "\<dots> = (g x \<notin> set (map g (y # ys)) \<and> distinct (map g (y # ys)))"
      by auto
    finally show ?thesis .
  qed
qed

lemma distinct_map_sort_key: "distinct (map g (sort_key f xs)) = distinct (map g xs)"
proof (induction xs)
  case Nil
  show ?case by simp
next
  case (Cons x xs)
  have "set (map g (sort_key f xs)) = set (map g xs)" by simp
  then show ?case
    by (simp only: sort_key_simps distinct_map_insort_key Cons.IH list.map distinct.simps)
qed

lemma length_delete_present:
  assumes "distinct (map fst al)" and "k \<in> fst ` set al"
  shows "Suc (length (AList.delete k al)) = length al"
  using assms
proof (induction al)
  case Nil
  then show ?case by simp
next
  case (Cons p al)
  show ?case
  proof (cases "fst p = k")
    case True
    with Cons.prems(1) have "k \<notin> fst ` set al" by auto
    then have "AList.delete k al = al" by (rule AList.delete_id)
    with True show ?thesis by simp
  next
    case False
    with Cons.prems have "Suc (length (AList.delete k al)) = length al"
      by (intro Cons.IH) auto
    with False show ?thesis by simp
  qed
qed

lemma length_fold_delete:
  assumes "distinct (map fst al)" and "distinct ks" and "set ks \<subseteq> fst ` set al"
  shows "length (fold AList.delete ks al) + length ks = length al
         \<and> distinct (map fst (fold AList.delete ks al))"
  using assms
proof (induction ks arbitrary: al)
  case Nil
  then show ?case by simp
next
  case (Cons k ks)
  let ?al = "AList.delete k al"
  have d: "distinct (map fst ?al)" using Cons.prems(1) by (rule AList.distinct_delete)
  have keys: "fst ` set ?al = fst ` set al - {k}"
    using AList.delete_keys [of k al] by (metis list.set_map set_removeAll)
  have sub: "set ks \<subseteq> fst ` set ?al" using Cons.prems(2,3) keys by auto
  have dk: "distinct ks" using Cons.prems(2) by simp
  have k: "k \<in> fst ` set al" using Cons.prems(3) by simp
  from Cons.IH [OF d dk sub] length_delete_present [OF Cons.prems(1) k]
  show ?case by simp
qed

lemma length_update_le: "length (AList.update k v al) \<le> Suc (length al)"
  by (induction al) simp_all

lemma evict_quarter:
  assumes d: "distinct (map fst store)"
  shows "length (fold AList.delete
                   (take (length store div 4) (map fst (sort_key f store))) store)
           + length store div 4 = length store
         \<and> distinct (map fst (fold AList.delete
                   (take (length store div 4) (map fst (sort_key f store))) store))"
proof -
  let ?ks = "take (length store div 4) (map fst (sort_key f store))"
  have "distinct (map fst (sort_key f store))" using d by (simp only: distinct_map_sort_key)
  then have dk: "distinct ?ks" by (rule distinct_take)
  have "set ?ks \<subseteq> set (map fst (sort_key f store))" by (rule set_take_subset)
  then have sub: "set ?ks \<subseteq> fst ` set store" by simp
  have lk: "length ?ks = length store div 4" by simp
  from length_fold_delete [OF d dk sub] show ?thesis by (simp only: lk)
qed

lemma cache_set_inv:
  assumes big: "4 \<le> max_size self" and inv: "cache_inv self"
  shows "cache_inv (cache_set hash self key dat now)
         \<and> max_size (cache_set hash self key dat now) = max_size self"
proof -
  let ?store = "cache self"
  let ?n = "length ?store"
  let ?f = "\<lambda>(k, e). timestamp e"
  let ?evicted = "fold AList.delete (take (?n div 4) (map fst (sort_key ?f ?store))) ?store"
  let ?store' = "if int ?n \<ge> max_size self then ?evicted else ?store"
  let ?entry = "\<lparr>data = dat, timestamp = now\<rparr>"
  from inv have d: "distinct (map fst ?store)" and le: "int ?n \<le> max_size self"
    by (simp_all add: cache_inv_def)
  have res: "cache (cache_set hash self key dat now) = AList.update (hash key) ?entry ?store'"
    by (simp add: cache_set_def Let_def)
  have ms: "max_size (cache_set hash self key dat now) = max_size self"
    by (simp add: cache_set_def Let_def)
  have d': "distinct (map fst ?store')"
    using d evict_quarter [OF d, of ?f] by simp
  have l': "int (length ?store') + 1 \<le> max_size self"
  proof (cases "int ?n \<ge> max_size self")
    case True
    with le big have "4 \<le> ?n" by linarith
    then have "1 \<le> ?n div 4" by simp
    moreover have "length ?evicted + ?n div 4 = ?n"
      using evict_quarter [OF d, of ?f] by simp
    ultimately have "length ?evicted + 1 \<le> ?n" by linarith
    with le True show ?thesis by simp
  next
    case False
    then show ?thesis by simp
  qed
  have "length (AList.update (hash key) ?entry ?store') \<le> Suc (length ?store')"
    by (rule length_update_le)
  with l' have "int (length (AList.update (hash key) ?entry ?store')) \<le> max_size self"
    by linarith
  moreover have "distinct (map fst (AList.update (hash key) ?entry ?store'))"
    using d' by (rule AList.distinct_update)
  ultimately show ?thesis
    unfolding cache_inv_def res ms by simp
qed

lemma cache_sets_inv:
  assumes "4 \<le> max_size self" and "cache_inv self"
  shows "cache_inv (cache_sets hash self ops)
         \<and> max_size (cache_sets hash self ops) = max_size self"
  using assms
proof (induction ops arbitrary: self)
  case Nil
  then show ?case by simp
next
  case (Cons op ops)
  obtain key dat now where op: "op = (key, dat, now)" by (cases op)
  from cache_set_inv [OF Cons.prems, of hash key dat now]
  have i: "cache_inv (cache_set hash self key dat now)"
    and m: "max_size (cache_set hash self key dat now) = max_size self" by simp_all
  from Cons.prems(1) m have b: "4 \<le> max_size (cache_set hash self key dat now)" by simp
  from Cons.IH [OF b i] m op show ?case by simp
qed

text \<open>
  From \<open>max_size = 4\<close> on, a store that starts empty stays within \<open>max_size\<close>: a full
  store has at least four entries, so at least one is evicted before the insertion.
\<close>

lemma cache_bounded_from_four:
  assumes "4 \<le> max_sz"
  shows "int (length (cache (cache_sets hash (ResponseCache_init ttl_seconds max_sz) ops)))
         \<le> max_sz"
proof -
  let ?c = "ResponseCache_init ttl_seconds max_sz :: 'a ResponseCache"
  have i: "cache_inv ?c" using assms by (simp add: cache_inv_def ResponseCache_init_def)
  have m: "4 \<le> max_size ?c" using assms by (simp add: ResponseCache_init_def)
  from cache_sets_inv [OF m i, of hash ops] show ?thesis
    by (simp add: cache_inv_def ResponseCache_init_def)
qed

text \<open>
  C9, what the code does.  With \<open>max_size = 1\<close>, two \<open>set\<close> operations on keys with
  different digests leave two entries in the store: the store is full at the second
  operation, but a quarter of one entry, rounded down, is no entry, so nothing is evicted.
\<close>

theorem small_cache_overflows:
  assumes "hash ''a'' \<noteq> hash ''b''"
  shows "cache (cache_sets hash (ResponseCache_init 300 1) [(''a'', x, t1), (''b'', y, t2)])
           = [(hash ''a'', \<lparr>data = x, timestamp = t1\<rparr>), (hash ''b'', \<lparr>data = y, timestamp = t2\<rparr>)]
         \<and> max_size (cache_sets hash (ResponseCache_init 300 1) [(''a'', x, t1), (''b'', y, t2)])
           = 1"
  using assms by (simp add: cache_set_def ResponseCache_init_def Let_def)

theorem small_cache_overflows_witness:
  "length (cache (cache_sets id (ResponseCache_init 300 1)
                    [(''a'', 1 :: nat, 10), (''b'', 2, 20)])) = 2
   \<and> max_size (cache_sets id (ResponseCache_init 300 1)
                    [(''a'', 1 :: nat, 10), (''b'', 2, 20)]) = 1"
  using small_cache_overflows [of id "1 :: nat" 10 2 20]
  by simp

section \<open>Parsing a probability from a response\<close>

lemma parse_probability_first_success:
  "parse_probability text =
     map_sum id (map_option normalize_probability) (first_success probability_patterns text)"
  by (simp add: parse_probability_def probability_patterns_def label_value_def
      percent_value_def ratio_value_def chance_value_def
      split: option.splits sum.splits prod.splits)

lemma normalize_probability_range:
  "0.01 \<le> normalize_probability v \<and> normalize_probability v \<le> 0.99"
  by (simp add: normalize_probability_def)

lemma parse_probability_range:
  assumes "parse_probability text = Inr (Some p)"
  shows "0.01 \<le> p \<and> p \<le> 0.99"
proof -
  from assms obtain v where "p = normalize_probability v"
    unfolding parse_probability_first_success
    by (cases "first_success probability_patterns text") (auto simp: map_option_case split: option.splits)
  then show ?thesis using normalize_probability_range by simp
qed

lemma py_or_parsed:
  assumes "parse_probability text = Inr parsed"
  shows "py_or parsed d = (case parsed of Some p \<Rightarrow> p | None \<Rightarrow> d)"
proof (cases parsed)
  case None
  then show ?thesis by (simp add: py_or_def)
next
  case (Some p)
  with assms have "0.01 \<le> p" using parse_probability_range by blast
  then have "p \<noteq> 0" by simp
  with Some show ?thesis by (simp add: py_or_def)
qed

text \<open>
  A label followed by a number and a full stop is captured with the stop; \<open>float\<close>
  raises on it, and so does the parser.
\<close>

lemma parse_trailing_stop_raises: "parse_probability ''PROBABILITY: 0.75.'' = Inl ValueError"
  by (simp add: parse_probability_def regex_defs)

text \<open>
  C7, as amended.  The parser is the ordered list of the four matchers, the first that
  yields a value winning, with the value clamped into \<open>[0.01, 0.99]\<close>.  For every
  response on which the parser raises no error, \<open>forecast\<close> returns the parsed
  probability, or 0.5 when no pattern yields a value, and \<open>revise_forecast\<close> returns the
  parsed probability, or the initial probability of the forecast under revision when no
  pattern yields a value.
\<close>

theorem parse_priority_and_fallback:
  "parse_probability response
     = map_sum id (map_option normalize_probability) (first_success probability_patterns response)
   \<and> (\<forall>parsed. parse_probability response = Inr parsed \<longrightarrow>
        (case parsed of Some p \<Rightarrow> 0.01 \<le> p \<and> p \<le> 0.99 | None \<Rightarrow> True)
        \<and> (call_llm self (ForecastPrompt q rc rs) = Inr response \<longrightarrow>
             map_sum id AgentForecast.final_probability (forecast call_llm self q rc rs)
               = Inr (case parsed of Some p \<Rightarrow> p | None \<Rightarrow> 0.5))
        \<and> (initial_probability prior = Some initial
             \<and> call_llm self (RevisePrompt q initial (initial_reasoning prior) critique) = Inr response \<longrightarrow>
             map_sum id AgentForecast.final_probability
                 (revise_forecast call_llm self q prior critique)
               = Inr (case parsed of Some p \<Rightarrow> p | None \<Rightarrow> initial)))"
proof (intro conjI allI impI)
  show "parse_probability response
     = map_sum id (map_option normalize_probability) (first_success probability_patterns response)"
    by (rule parse_probability_first_success)
next
  fix parsed assume "parse_probability response = Inr parsed"
  then show "case parsed of Some p \<Rightarrow> 0.01 \<le> p \<and> p \<le> 0.99 | None \<Rightarrow> True"
    using parse_probability_range by (cases parsed) simp_all
next
  fix parsed
  assume p: "parse_probability response = Inr parsed"
    and c: "call_llm self (ForecastPrompt q rc rs) = Inr response"
  show "map_sum id AgentForecast.final_probability (forecast call_llm self q rc rs)
          = Inr (case parsed of Some p \<Rightarrow> p | None \<Rightarrow> 0.5)"
    using py_or_parsed [OF p, of "0.5"] by (simp add: forecast_def c p Let_def)
next
  fix parsed
  assume p: "parse_probability response = Inr parsed"
    and c: "initial_probability prior = Some initial
            \<and> call_llm self (RevisePrompt q initial (initial_reasoning prior) critique) = Inr response"
  show "map_sum id AgentForecast.final_probability
            (revise_forecast call_llm self q prior critique)
          = Inr (case parsed of Some p \<Rightarrow> p | None \<Rightarrow> initial)"
    using py_or_parsed [OF p, of initial] c by (simp add: revise_forecast_def p Let_def)
qed

lemma parse_labelled_075: "parse_probability ''PROBABILITY: 0.75'' = Inr (Some 0.75)"
  by (simp add: parse_probability_def regex_defs normalize_probability_def)

lemma parse_no_number: "parse_probability ''no number'' = Inr None"
  by code_simp

theorem parse_priority_and_fallback_witness:
  "parse_probability ''PROBABILITY: 0.75'' = Inr (Some 0.75)
   \<and> map_sum id AgentForecast.final_probability
        (forecast (const_llm ''PROBABILITY: 0.75'') (demo_agent ''alice'') ''q'' ''rc'' [])
       = Inr 0.75
   \<and> map_sum id AgentForecast.final_probability
        (revise_forecast (const_llm ''PROBABILITY: 0.75'') (demo_agent ''alice'') ''q''
           (demo_forecast ''alice'' 0.6) ''critique'')
       = Inr 0.75"
  using parse_priority_and_fallback [where response = "''PROBABILITY: 0.75''"
      and call_llm = "const_llm ''PROBABILITY: 0.75''" and self = "demo_agent ''alice''"
      and q = "''q''" and rc = "''rc''" and rs = "[]" and prior = "demo_forecast ''alice'' 0.6"
      and initial = "0.6" and critique = "''critique''"]
    parse_labelled_075
  by (simp add: const_llm_def demo_forecast_def)

text \<open>
  C7, as stated, fails for the revision: on a response without any pattern it keeps the
  initial probability 0.7 and does not return 0.5.
\<close>

theorem revise_fallback_counterexample:
  "parse_probability ''no number'' = Inr None
   \<and> map_sum id AgentForecast.final_probability
        (revise_forecast (const_llm ''no number'') (demo_agent ''alice'') ''q''
           (demo_forecast ''alice'' 0.7) ''critique'')
       = Inr 0.7
   \<and> (0.7 :: real) \<noteq> 0.5"
  by (simp add: revise_forecast_def const_llm_def demo_forecast_def parse_no_number py_or_def)

end
